theory Spec2Isabelle
  imports Main "HOL-Library.Word" "HOL-Library.Sublist"
begin

section \<open>The assembly analyzer of libyul/AsmAnalysis.cpp\<close>

text \<open>
  A shallow embedding of the semantic analyzer for inline assembly: the walk over the
  syntax tree that checks names, types and stack balance and records one stack height
  per node. Every member function of \<open>AsmAnalyzer\<close> becomes a function from the
  analyzer object (a record of its member variables) to an outcome that carries the
  updated object; a C++ exception, a failed \<open>yulAssert\<close> and a read through a null
  pointer are outcomes of their own.
\<close>

subsection \<open>Outcomes\<close>

datatype exn =
  FatalError
  | AssertionFailed
  | OutOfRange
  | BadVariantAccess
  | BadOptionalAccess
  | NullDereference

text \<open>
  \<open>Ok x s\<close>: the call returned \<open>x\<close> and left the state \<open>s\<close>;
  \<open>Exc e s\<close>: the call was left by the exception \<open>e\<close>, the state being \<open>s\<close> at the throw.
\<close>

datatype ('a, 's) res = Ok 'a 's | Exc exn 's

fun and_then :: "('a, 's) res \<Rightarrow> ('a \<Rightarrow> 's \<Rightarrow> ('b, 's) res) \<Rightarrow> ('b, 's) res" where
  "and_then (Ok x s) f = f x s"
| "and_then (Exc e s) f = Exc e s"

fun state_of :: "('a, 's) res \<Rightarrow> 's" where
  "state_of (Ok x s) = s"
| "state_of (Exc e s) = s"

fun returned :: "('a, 's) res \<Rightarrow> 'a option" where
  "returned (Ok x s) = Some x"
| "returned (Exc e s) = None"

subsection \<open>Plain data: names, locations, numbers as text\<close>

type_synonym YulString = string
type_synonym SourceLocation = "int \<times> int"

text \<open>\<open>std::to_string\<close> on an unsigned and on a signed number.\<close>

fun to_string_nat :: "nat \<Rightarrow> string" where
  "to_string_nat n =
     (if n < 10 then [''0123456789'' ! n]
      else to_string_nat (n div 10) @ [''0123456789'' ! (n mod 10)])"

definition to_string :: "int \<Rightarrow> string" where
  "to_string i = (if i < 0 then CHR ''-'' # to_string_nat (nat (- i)) else to_string_nat (nat i))"

text \<open>\<open>boost::to_lower_copy\<close> on the ASCII letters.\<close>

definition to_lower_copy :: "string \<Rightarrow> string" where
  "to_lower_copy s =
     map (\<lambda>c. if 65 \<le> (of_char c :: nat) \<and> (of_char c :: nat) \<le> 90
              then char_of ((of_char c :: nat) + 32) else c) s"

subsection \<open>The syntax tree (libyul/AsmData.h)\<close>

text \<open>
  The analyzer keys its tables by the address of a node, so every node that is a key
  carries its address as a number.
\<close>

datatype LiteralKind = Number | Boolean | String

datatype Literal =
  Literal (lit_addr: nat) (lit_location: SourceLocation) (lit_kind: LiteralKind)
    (lit_value: YulString) (lit_type: YulString)

datatype Identifier =
  Identifier (id_addr: nat) (id_location: SourceLocation) (id_name: YulString)

datatype TypedName =
  TypedName (tn_location: SourceLocation) (tn_name: YulString) (tn_type: YulString)

datatype Expression =
  FunctionCall nat SourceLocation Identifier "Expression list"
  | ExprIdentifier Identifier
  | ExprLiteral Literal

fun locationOf :: "Expression \<Rightarrow> SourceLocation" where
  "locationOf (FunctionCall addr loc fname args) = loc"
| "locationOf (ExprIdentifier i) = id_location i"
| "locationOf (ExprLiteral l) = lit_location l"

text \<open>
  A field that is a \<open>unique_ptr\<close> in the source is an option here: \<open>None\<close> is the
  null pointer.
\<close>

datatype Statement =
  ExpressionStatement nat SourceLocation Expression
  | Assignment nat SourceLocation "Identifier list" "Expression option"
  | VariableDeclaration nat SourceLocation "TypedName list" "Expression option"
  | FunctionDefinition nat SourceLocation YulString "TypedName list" "TypedName list" Block
  | If nat SourceLocation "Expression option" Block
  | Switch nat SourceLocation "Expression option" "Case list"
  | ForLoop nat SourceLocation Block "Expression option" Block Block
  | Break nat SourceLocation
  | Continue nat SourceLocation
  | Leave nat SourceLocation
  | BlockStatement Block
and Block =
  Block (block_addr: nat) (block_location: SourceLocation) (block_statements: "Statement list")
and Case =
  Case (case_location: SourceLocation) (case_value: "Literal option") (case_body: Block)

subsection \<open>Scopes (libyul/AsmScope.h)\<close>

datatype ScopeIdentifier =
  Variable YulString
  | Function "YulString list" "YulString list"

text \<open>
  Modelled from the spec: the structure \<open>Scope\<close> and its member functions \<open>lookup\<close>,
  \<open>numberOfVariables\<close> and \<open>insideFunction\<close> (libyul/AsmScope.h and AsmScope.cpp).
  A scope maps names to a variable binding or a function binding, holds a pointer to its
  enclosing scope and records whether it lies inside a function body. The scopes form a
  tree with parent pointers, which the analyzer only reads, so a pointer to a scope is
  the scope it points to, with its chain of enclosing scopes, and \<open>scope_addr\<close> is the
  address that tells two scope objects apart. The map \<open>identifiers\<close> is an association
  list read with \<open>map_of\<close>.
\<close>

datatype Scope =
  Scope (scope_addr: nat) (identifiers: "(YulString \<times> ScopeIdentifier) list")
    (superScope: "Scope option") (functionScope: bool)

text \<open>
  A pointer to a \<open>Scope::Variable\<close>: the address of the scope that owns the binding,
  and the name it is bound to.
\<close>

type_synonym VariablePtr = "nat \<times> YulString"

fun lookup :: "Scope \<Rightarrow> YulString \<Rightarrow> (nat \<times> ScopeIdentifier) option" where
  "lookup (Scope addr ids super fs) n =
     (case map_of ids n of
        Some i \<Rightarrow> Some (addr, i)
      | None \<Rightarrow> (case super of None \<Rightarrow> None | Some s \<Rightarrow> lookup s n))"

definition numberOfVariables :: "Scope \<Rightarrow> nat" where
  "numberOfVariables s =
     length (filter (\<lambda>n. case map_of (identifiers s) n of Some (Variable t) \<Rightarrow> True | _ \<Rightarrow> False)
               (remdups (map fst (identifiers s))))"

definition insideFunction :: "Scope \<Rightarrow> bool" where
  "insideFunction s = functionScope s"

subsection \<open>The error reporter (liblangutil/ErrorReporter.h)\<close>

datatype ErrorType = TypeError | DeclarationError | SyntaxError | OtherError

type_synonym Error = "ErrorType \<times> SourceLocation \<times> string"

text \<open>
  Modelled from the spec: the error reporter (liblangutil/ErrorReporter.cpp). It collects
  typed diagnostics at source locations, reports whether any error exists, and raises the
  fatal condition when it is over capacity: the diagnostic is recorded, and the call
  throws \<open>FatalError\<close> when the list has grown beyond \<open>maxErrors\<close>.
\<close>

record ErrorReporter =
  errors :: "Error list"
  maxErrors :: nat

definition error :: "ErrorType \<Rightarrow> SourceLocation \<Rightarrow> string \<Rightarrow> ErrorReporter \<Rightarrow> (unit, ErrorReporter) res" where
  "error t loc msg r =
     (let r' = r\<lparr>errors := errors r @ [(t, loc, msg)]\<rparr>
      in if maxErrors r' < length (errors r') then Exc FatalError r' else Ok () r')"

definition hasErrors :: "ErrorReporter \<Rightarrow> bool" where
  "hasErrors r = (errors r \<noteq> [])"

subsection \<open>The dialect, the target machine and the other collaborators\<close>

record BuiltinFunction =
  bf_name :: YulString
  bf_parameters :: "YulString list"
  bf_returns :: "YulString list"
  bf_literalArguments :: bool

record Dialect =
  defaultType :: YulString
  boolType :: YulString
  types :: "YulString set"
  builtin :: "YulString \<Rightarrow> BuiltinFunction option"
  validTypeForLiteral :: "LiteralKind \<Rightarrow> YulString \<Rightarrow> YulString \<Rightarrow> bool"

text \<open>
  The machine instructions that \<open>warnOnInstructions\<close> names; every other one is
  \<open>OtherInstruction\<close> with its opcode.
\<close>

datatype Instruction =
  RETURNDATACOPY | RETURNDATASIZE | STATICCALL | SHL | SHR | SAR | CREATE2 | EXTCODEHASH
  | CHAINID | SELFBALANCE | JUMP | JUMPI | JUMPDEST | OtherInstruction nat

text \<open>
  Modelled from the spec: the feature flags of the target machine version
  (liblangutil/EVMVersion.h) and its name.
\<close>

record EVMVersion =
  supportsReturndata :: bool
  hasStaticCall :: bool
  hasBitwiseShifting :: bool
  hasCreate2 :: bool
  hasExtCodeHash :: bool
  hasChainID :: bool
  hasSelfBalance :: bool
  evm_name :: string

text \<open>
  Functions of other files that the analyzer calls, taken as parameters:
  the constructor of \<open>bigint\<close> from a string, \<open>valueOfLiteral\<close> (libyul/Utilities.cpp),
  the lookup of a name among the built-in functions of
  \<open>EVMDialect::strictAssemblyForEVM(EVMVersion{})\<close>, which gives the optional machine
  instruction of the built-in function found, and \<open>instructionInfo(_).name\<close>.
\<close>

record Externals =
  bigint :: "string \<Rightarrow> int"
  valueOfLiteral :: "Literal \<Rightarrow> exn + 256 word"
  strictAssemblyBuiltin :: "YulString \<Rightarrow> Instruction option option"
  instructionName :: "Instruction \<Rightarrow> string"

datatype IdentifierContext = LValue | RValue | VariableDeclarationContext

text \<open>
  The resolver callback: from the identifier, the context and the flag it gives the
  diagnostics it records, in order, and the stack size (\<open>size_t(-1)\<close> for unknown).
\<close>

type_synonym Resolver = "Identifier \<Rightarrow> IdentifierContext \<Rightarrow> bool \<Rightarrow> Error list \<times> 64 word"

subsection \<open>The analyzer object\<close>

record AsmAnalysisInfo =
  scopes :: "nat \<Rightarrow> Scope option option"
  virtualBlocks :: "nat \<Rightarrow> nat option option"
  stackHeightInfo :: "nat \<Rightarrow> 32 word option"

record AsmAnalyzer =
  m_stackHeight :: "32 word"
  m_resolver :: "Resolver option"
  m_currentScope :: "Scope option"
  m_info :: AsmAnalysisInfo
  m_errorReporter :: ErrorReporter
  m_evmVersion :: EVMVersion
  m_dialect :: Dialect
  m_dataNames :: "YulString set"
  m_currentForLoop :: "nat option"
  m_activeVariables :: "VariablePtr set"
  m_typeOfCurrentExpression :: "YulString list"

type_synonym 'a step = "AsmAnalyzer \<Rightarrow> ('a, AsmAnalyzer) res"

text \<open>A call of the reporter through the reference \<open>m_errorReporter\<close>.\<close>

definition report :: "ErrorType \<Rightarrow> SourceLocation \<Rightarrow> string \<Rightarrow> unit step" where
  "report t loc msg a =
     (case error t loc msg (m_errorReporter a) of
        Ok u r \<Rightarrow> Ok () (a\<lparr>m_errorReporter := r\<rparr>)
      | Exc e r \<Rightarrow> Exc e (a\<lparr>m_errorReporter := r\<rparr>))"

definition typeError :: "SourceLocation \<Rightarrow> string \<Rightarrow> unit step" where
  "typeError loc msg = report TypeError loc msg"

definition declarationError :: "SourceLocation \<Rightarrow> string \<Rightarrow> unit step" where
  "declarationError loc msg = report DeclarationError loc msg"

text \<open>\<open>m_info.stackHeightInfo[&node] = m_stackHeight\<close>.\<close>

definition recordStackHeight :: "nat \<Rightarrow> AsmAnalyzer \<Rightarrow> AsmAnalyzer" where
  "recordStackHeight addr a =
     a\<lparr>m_info := (m_info a)\<lparr>stackHeightInfo := (stackHeightInfo (m_info a))(addr \<mapsto> m_stackHeight a)\<rparr>\<rparr>"

subsection \<open>The helper functions of the analyzer\<close>

definition scope :: "nat \<Rightarrow> Scope step" where
  "scope block a =
     (case scopes (m_info a) block of
        None \<Rightarrow> Exc AssertionFailed a
      | Some None \<Rightarrow> Exc AssertionFailed a
      | Some (Some s) \<Rightarrow> Ok s a)"

definition expectValidType :: "YulString \<Rightarrow> SourceLocation \<Rightarrow> unit step" where
  "expectValidType t loc a =
     (if t \<notin> types (m_dialect a)
      then typeError loc
             ([CHR 0x22] @ t @ [CHR 0x22] @ '' is not a valid type (user defined types are not yet supported).'') a
      else Ok () a)"

definition expectType :: "YulString \<Rightarrow> YulString \<Rightarrow> SourceLocation \<Rightarrow> bool step" where
  "expectType expectedType givenType loc a =
     (if expectedType \<noteq> givenType
      then and_then
             (typeError loc
                (''Expected a value of type '' @ [CHR 0x22] @ expectedType @ [CHR 0x22] @
                 '' but got '' @ [CHR 0x22] @ givenType) a)
             (\<lambda>u a1. Ok False a1)
      else Ok True a)"

definition expectDeposit :: "32 word \<Rightarrow> 32 word \<Rightarrow> SourceLocation \<Rightarrow> bool step" where
  "expectDeposit deposit oldHeight loc a =
     (if m_stackHeight a - oldHeight \<noteq> deposit
      then and_then
             (typeError loc
                (''Expected expression to return one item to the stack, but did return '' @
                 to_string (sint (m_stackHeight a - oldHeight)) @ '' items.'') a)
             (\<lambda>u a1. Ok False a1)
      else Ok True a)"

subsection \<open>Literals\<close>

definition visit_Literal :: "Externals \<Rightarrow> Literal \<Rightarrow> bool step" where
  "visit_Literal ext l a =
     and_then (expectValidType (lit_type l) (lit_location l) a) (\<lambda>u a1.
     let a2 = a1\<lparr>m_stackHeight := m_stackHeight a1 + 1\<rparr> in
     if lit_kind l = String \<and> 32 < length (lit_value l) then
       and_then
         (typeError (lit_location l)
            (''String literal too long ('' @ to_string_nat (length (lit_value l)) @ '' > 32)'') a2)
         (\<lambda>u a3. Ok False a3)
     else if lit_kind l = Number \<and> 2 ^ 256 - 1 < bigint ext (lit_value l) then
       and_then
         (typeError (lit_location l) ''Number literal too large (> 256 bits)'' a2)
         (\<lambda>u a3. Ok False a3)
     else if lit_kind l = Boolean \<and> \<not> (lit_value l = ''true'' \<or> lit_value l = ''false'') then
       Exc AssertionFailed a2
     else
       and_then
         (if \<not> validTypeForLiteral (m_dialect a2) (lit_kind l) (lit_value l) (lit_type l)
          then typeError (lit_location l)
                 (''Invalid type '' @ [CHR 0x22] @ lit_type l @ [CHR 0x22] @ '' for literal '' @
                  [CHR 0x22] @ lit_value l @ [CHR 0x22] @ ''.'') a2
          else Ok () a2)
         (\<lambda>u a3. Ok True ((recordStackHeight (lit_addr l) a3)\<lparr>m_typeOfCurrentExpression := [lit_type l]\<rparr>)))"

subsection \<open>The resolver callback\<close>

fun reportAll :: "Error list \<Rightarrow> unit step" where
  "reportAll [] a = Ok () a"
| "reportAll ((t, loc, msg) # es) a = and_then (report t loc msg a) (\<lambda>u a1. reportAll es a1)"

definition callResolver :: "Resolver \<Rightarrow> Identifier \<Rightarrow> IdentifierContext \<Rightarrow> bool \<Rightarrow> (64 word) step" where
  "callResolver r i c inside a =
     (case r i c inside of (es, stackSize) \<Rightarrow> and_then (reportAll es a) (\<lambda>u a1. Ok stackSize a1))"

subsection \<open>Identifiers\<close>

definition visit_Identifier :: "Externals \<Rightarrow> Identifier \<Rightarrow> bool step" where
  "visit_Identifier ext i a =
     (if id_name i = [] then Exc AssertionFailed a else
      let numErrorsBefore = length (errors (m_errorReporter a));
          a1 = a\<lparr>m_typeOfCurrentExpression := [defaultType (m_dialect a)]\<rparr> in
      case m_currentScope a1 of
        None \<Rightarrow> Exc NullDereference a1
      | Some cs \<Rightarrow>
      and_then
        (case lookup cs (id_name i) of
           Some (owner, Variable t) \<Rightarrow>
             and_then
               (if (owner, id_name i) \<notin> m_activeVariables a1
                then and_then
                       (declarationError (id_location i)
                          (''Variable '' @ id_name i @ '' used before it was declared.'') a1)
                       (\<lambda>u a2. Ok False a2)
                else Ok True a1)
               (\<lambda>success a2.
                  Ok success (a2\<lparr>m_typeOfCurrentExpression := [t], m_stackHeight := m_stackHeight a2 + 1\<rparr>))
         | Some (owner, Function ps rs) \<Rightarrow>
             and_then
               (typeError (id_location i) (''Function '' @ id_name i @ '' used without being called.'') a1)
               (\<lambda>u a2. Ok False a2)
         | None \<Rightarrow>
             and_then
               (case m_resolver a1 of
                  None \<Rightarrow> Ok (- 1) a1
                | Some r \<Rightarrow> callResolver r i RValue (insideFunction cs) a1)
               (\<lambda>stackSize a2.
             and_then
               (if stackSize = - 1
                then and_then
                       (if numErrorsBefore = length (errors (m_errorReporter a2))
                        then declarationError (id_location i) ''Identifier not found.'' a2
                        else Ok () a2)
                       (\<lambda>u a3. Ok False a3)
                else Ok True a2)
               (\<lambda>success a3.
                  Ok success
                    (a3\<lparr>m_stackHeight :=
                          m_stackHeight a3 + (if stackSize = - 1 then 1 else ucast stackSize)\<rparr>))))
        (\<lambda>success a4. Ok success (recordStackHeight (id_addr i) a4)))"

subsection \<open>Legacy instructions\<close>

text \<open>The text of the syntax error for the jump instructions.\<close>

definition jumpInstructionsMessage :: string where
  "jumpInstructionsMessage =
     ''Jump instructions and labels are low-level EVM features that can lead to '' @
     ''incorrect stack access. Because of that they are disallowed in strict assembly. '' @
     ''Use functions, '' @ [CHR 0x22] @ ''switch'' @ [CHR 0x22] @ '', '' @
     [CHR 0x22] @ ''if'' @ [CHR 0x22] @ '' or '' @ [CHR 0x22] @ ''for'' @ [CHR 0x22] @
     '' statements instead.''"

definition warnOnInstructions :: "Externals \<Rightarrow> Instruction \<Rightarrow> SourceLocation \<Rightarrow> bool step" where
  "warnOnInstructions ext instr loc a =
     (let v = m_evmVersion a in
      if supportsReturndata v \<noteq> hasStaticCall v then Exc AssertionFailed a
      else if hasBitwiseShifting v \<noteq> hasCreate2 v then Exc AssertionFailed a
      else
      let errorForVM = (\<lambda>vmKindMessage.
            typeError loc
              (''The '' @ [CHR 0x22] @ to_lower_copy (instructionName ext instr) @ [CHR 0x22] @
               '' instruction is '' @ vmKindMessage @ '' VMs '' @
               '' (you are currently compiling for '' @ [CHR 0x22] @ evm_name v @ [CHR 0x22] @ '').''))
      in
      if (instr = RETURNDATACOPY \<or> instr = RETURNDATASIZE) \<and> \<not> supportsReturndata v then
        and_then (errorForVM ''only available for Byzantium-compatible'' a) (\<lambda>u a1. Ok True a1)
      else if instr = STATICCALL \<and> \<not> hasStaticCall v then
        and_then (errorForVM ''only available for Byzantium-compatible'' a) (\<lambda>u a1. Ok True a1)
      else if (instr = SHL \<or> instr = SHR \<or> instr = SAR) \<and> \<not> hasBitwiseShifting v then
        and_then (errorForVM ''only available for Constantinople-compatible'' a) (\<lambda>u a1. Ok True a1)
      else if instr = CREATE2 \<and> \<not> hasCreate2 v then
        and_then (errorForVM ''only available for Constantinople-compatible'' a) (\<lambda>u a1. Ok True a1)
      else if instr = EXTCODEHASH \<and> \<not> hasExtCodeHash v then
        and_then (errorForVM ''only available for Constantinople-compatible'' a) (\<lambda>u a1. Ok True a1)
      else if instr = CHAINID \<and> \<not> hasChainID v then
        and_then (errorForVM ''only available for Istanbul-compatible'' a) (\<lambda>u a1. Ok True a1)
      else if instr = SELFBALANCE \<and> \<not> hasSelfBalance v then
        and_then (errorForVM ''only available for Istanbul-compatible'' a) (\<lambda>u a1. Ok True a1)
      else if instr = JUMP \<or> instr = JUMPI \<or> instr = JUMPDEST then
        and_then (report SyntaxError loc jumpInstructionsMessage a) (\<lambda>u a1. Ok True a1)
      else Ok False a)"

text \<open>The overload that takes the name of the instruction.\<close>

definition warnOnInstructions_name :: "Externals \<Rightarrow> string \<Rightarrow> SourceLocation \<Rightarrow> bool step" where
  "warnOnInstructions_name ext instructionIdentifier loc a =
     (case strictAssemblyBuiltin ext instructionIdentifier of
        Some b \<Rightarrow>
          (case b of
             None \<Rightarrow> Exc BadOptionalAccess a
           | Some instr \<Rightarrow> warnOnInstructions ext instr loc a)
      | None \<Rightarrow> Ok False a)"

subsection \<open>Expressions and function calls\<close>

text \<open>
  The loop that compares the parameter types with the collected argument types, over the
  indices \<open>0 ..< parameterTypes->size()\<close>.
\<close>

fun visit_FunctionCall_types ::
  "YulString list \<Rightarrow> YulString list \<Rightarrow> Expression list \<Rightarrow> nat list \<Rightarrow> bool \<Rightarrow> bool step" where
  "visit_FunctionCall_types parameterTypes argTypes arguments [] success a = Ok success a"
| "visit_FunctionCall_types parameterTypes argTypes arguments (i # is) success a =
     and_then
       (expectType (parameterTypes ! i) (argTypes ! i) (locationOf (arguments ! i)) a)
       (\<lambda>ok a1. visit_FunctionCall_types parameterTypes argTypes arguments is (success \<and> ok) a1)"

text \<open>
  \<open>visit_Expression\<close> is \<open>std::visit(*this, expression)\<close>; \<open>visit_Arguments\<close> is the loop
  of the function call over its arguments in reverse: the arguments after the first are
  walked before the first.
\<close>

fun visit_Expression :: "Externals \<Rightarrow> Expression \<Rightarrow> bool step"
  and expectExpression :: "Externals \<Rightarrow> Expression \<Rightarrow> bool step"
  and visit_Arguments ::
    "Externals \<Rightarrow> bool \<Rightarrow> SourceLocation \<Rightarrow> Expression list \<Rightarrow> bool \<Rightarrow> YulString list \<Rightarrow>
       (bool \<times> YulString list) step"
where
  "visit_Expression ext (ExprLiteral l) a = visit_Literal ext l a"
| "visit_Expression ext (ExprIdentifier i) a = visit_Identifier ext i a"
| "visit_Expression ext (FunctionCall addr loc functionName arguments) a =
     (if id_name functionName = [] then Exc AssertionFailed a else
      and_then
        (case builtin (m_dialect a) (id_name functionName) of
           Some f \<Rightarrow> Ok (True, Some (bf_parameters f), Some (bf_returns f), bf_literalArguments f) a
         | None \<Rightarrow>
             (case m_currentScope a of
                None \<Rightarrow> Exc NullDereference a
              | Some cs \<Rightarrow>
                  (case lookup cs (id_name functionName) of
                     Some (owner, Variable t) \<Rightarrow>
                       and_then
                         (typeError (id_location functionName)
                            ''Attempt to call variable instead of function.'' a)
                         (\<lambda>u a1. Ok (False, None, None, False) a1)
                   | Some (owner, Function ps rs) \<Rightarrow> Ok (True, Some ps, Some rs, False) a
                   | None \<Rightarrow>
                       and_then
                         (warnOnInstructions_name ext (id_name functionName) (id_location functionName) a)
                         (\<lambda>warned a1.
                       and_then
                         (if \<not> warned
                          then declarationError (id_location functionName) ''Function not found.'' a1
                          else Ok () a1)
                         (\<lambda>u a2. Ok (False, None, None, False) a2)))))
        (\<lambda>(success, parameterTypes, returnTypes, needsLiteralArguments) a1.
      and_then
        (if success then
           (case parameterTypes of
              None \<Rightarrow> Exc NullDereference a1
            | Some ps \<Rightarrow>
                if length arguments \<noteq> length ps then
                  and_then
                    (typeError (id_location functionName)
                       (''Function expects '' @ to_string_nat (length ps) @ '' arguments but got '' @
                        to_string_nat (length arguments) @ ''.'') a1)
                    (\<lambda>u a2. Ok False a2)
                else Ok True a1)
         else Ok False a1)
        (\<lambda>success a2.
      and_then
        (visit_Arguments ext needsLiteralArguments (id_location functionName) arguments success [] a2)
        (\<lambda>(success, argTypes) a3.
      and_then
        (if success then
           (case parameterTypes of
              None \<Rightarrow> Exc AssertionFailed a3
            | Some ps \<Rightarrow>
                if length ps \<noteq> length argTypes then Exc AssertionFailed a3
                else visit_FunctionCall_types ps argTypes arguments [0..<length ps] True a3)
         else Ok False a3)
        (\<lambda>success a4.
      let a5 = recordStackHeight addr
                 (a4\<lparr>m_stackHeight :=
                       m_stackHeight a4 +
                       (of_nat (case returnTypes of Some rs \<Rightarrow> length rs | None \<Rightarrow> 0) -
                        of_nat (length arguments))\<rparr>)
      in
      if success then
        (case returnTypes of
           None \<Rightarrow> Exc AssertionFailed a5
         | Some rs \<Rightarrow> Ok True (a5\<lparr>m_typeOfCurrentExpression := rs\<rparr>))
      else
        (case returnTypes of
           None \<Rightarrow> Exc NullDereference a5
         | Some rs \<Rightarrow>
             Ok False
               (a5\<lparr>m_typeOfCurrentExpression := replicate (length rs) (defaultType (m_dialect a5))\<rparr>)))))))"
| "expectExpression ext expr a =
     (let initialHeight = m_stackHeight a in
      and_then (visit_Expression ext expr a) (\<lambda>success a1.
      if success then expectDeposit 1 initialHeight (locationOf expr) a1 else Ok False a1))"
| "visit_Arguments ext needsLiteralArguments floc [] success argTypes a = Ok (success, argTypes) a"
| "visit_Arguments ext needsLiteralArguments floc (arg # earlier) success argTypes a =
     and_then (visit_Arguments ext needsLiteralArguments floc earlier success argTypes a)
       (\<lambda>(success, argTypes) a1.
     and_then (expectExpression ext arg a1) (\<lambda>ok a2.
     if \<not> ok then Ok (False, argTypes) a2 else
     (case m_typeOfCurrentExpression a2 of
        [] \<Rightarrow> Exc OutOfRange a2
      | t # ts \<Rightarrow>
          and_then
            (if needsLiteralArguments then
               (case arg of
                  ExprLiteral l \<Rightarrow>
                    if lit_value l \<notin> m_dataNames a2
                    then typeError floc
                           (''Unknown data object '' @ [CHR 0x22] @ lit_value l @ [CHR 0x22] @ ''.'') a2
                    else Ok () a2
                | _ \<Rightarrow> typeError floc ''Function expects direct literals as arguments.'' a2)
             else Ok () a2)
            (\<lambda>u a3. Ok (success, argTypes @ [t]) a3))))"

subsection \<open>Expression statements, assignments, declarations\<close>

definition visit_ExpressionStatement :: "Externals \<Rightarrow> nat \<Rightarrow> SourceLocation \<Rightarrow> Expression \<Rightarrow> bool step" where
  "visit_ExpressionStatement ext addr loc expression a =
     (let initialStackHeight = m_stackHeight a in
      and_then (visit_Expression ext expression a) (\<lambda>success a1.
      and_then
        (if success \<and> m_stackHeight a1 \<noteq> initialStackHeight then
           and_then
             (report TypeError loc
                (''Top-level expressions are not supposed to return values (this expression returns '' @
                 to_string (sint (m_stackHeight a1 - initialStackHeight)) @
                 '' value'' @
                 (if m_stackHeight a1 - initialStackHeight = 1 then [] else ''s'') @
                 ''). Use ``pop()`` or assign them.'') a1)
             (\<lambda>u a2. Ok False a2)
         else Ok success a1)
        (\<lambda>success a2. Ok success (recordStackHeight addr a2))))"

definition checkAssignment :: "Identifier \<Rightarrow> YulString \<Rightarrow> bool step" where
  "checkAssignment variable valueType a =
     (if id_name variable = [] then Exc AssertionFailed a else
      let numErrorsBefore = length (errors (m_errorReporter a)) in
      case m_currentScope a of
        None \<Rightarrow> Exc NullDereference a
      | Some cs \<Rightarrow>
      and_then
        (case lookup cs (id_name variable) of
           Some (owner, var) \<Rightarrow>
             and_then
               (case var of
                  Function ps rs \<Rightarrow>
                    and_then (typeError (id_location variable) ''Assignment requires variable.'' a)
                      (\<lambda>u a1. Ok (False, defaultType (m_dialect a)) a1)
                | Variable t \<Rightarrow>
                    if (owner, id_name variable) \<notin> m_activeVariables a then
                      and_then
                        (declarationError (id_location variable)
                           (''Variable '' @ id_name variable @ '' used before it was declared.'') a)
                        (\<lambda>u a1. Ok (False, defaultType (m_dialect a)) a1)
                    else Ok (True, t) a)
               (\<lambda>(success, variableType) a1. Ok (success, variableType, 1) a1)
         | None \<Rightarrow>
             (case m_resolver a of
                Some r \<Rightarrow>
                  and_then (callResolver r variable LValue (insideFunction cs) a)
                    (\<lambda>variableSize a1. Ok (True, defaultType (m_dialect a), variableSize) a1)
              | None \<Rightarrow> Ok (True, defaultType (m_dialect a), - 1) a))
        (\<lambda>(success, variableType, variableSize) a1.
      and_then
        (if variableSize = - 1 then
           and_then
             (if numErrorsBefore = length (errors (m_errorReporter a1))
              then declarationError (id_location variable) ''Variable not found or variable not lvalue.'' a1
              else Ok () a1)
             (\<lambda>u a2. Ok False a2)
         else Ok success a1)
        (\<lambda>success a2.
      let a3 = a2\<lparr>m_stackHeight := m_stackHeight a2 - 1\<rparr> in
      and_then
        (if variableSize \<noteq> 1 \<and> variableSize \<noteq> - 1 then
           and_then
             (typeError (id_location variable)
                (''Variable size ('' @ to_string_nat (unat variableSize) @
                 '') and value size (1) do not match.'') a3)
             (\<lambda>u a4. Ok False a4)
         else Ok success a3)
        (\<lambda>success a4.
      if success \<and> variableType \<noteq> valueType then
        and_then
          (typeError (id_location variable)
             (''Assigning a value of type '' @ [CHR 0x22] @ valueType @ [CHR 0x22] @
              '' to a variable of type '' @ [CHR 0x22] @ variableType @ [CHR 0x22] @ ''.'') a4)
          (\<lambda>u a5. Ok False a5)
      else Ok success a4))))"

text \<open>The loop of the assignment over its variable names, from index \<open>i\<close> on.\<close>

fun visit_Assignment_loop :: "Identifier list \<Rightarrow> nat \<Rightarrow> bool \<Rightarrow> bool step" where
  "visit_Assignment_loop [] i success a = Ok success a"
| "visit_Assignment_loop (variableName # rest) i success a =
     (let givenType =
            (if i < length (m_typeOfCurrentExpression a) then m_typeOfCurrentExpression a ! i
             else defaultType (m_dialect a))
      in and_then (checkAssignment variableName givenType a)
           (\<lambda>ok a1. visit_Assignment_loop rest (Suc i) (success \<and> ok) a1))"

definition visit_Assignment ::
  "Externals \<Rightarrow> nat \<Rightarrow> SourceLocation \<Rightarrow> Identifier list \<Rightarrow> Expression option \<Rightarrow> bool step" where
  "visit_Assignment ext addr loc variableNames val a =
     (case val of
        None \<Rightarrow> Exc AssertionFailed a
      | Some v \<Rightarrow>
      let expectedItems = (of_nat (length variableNames) :: 32 word) in
      if \<not> word_sle 1 expectedItems then Exc AssertionFailed a else
      let stackHeight = m_stackHeight a in
      and_then (visit_Expression ext v a) (\<lambda>success a1.
      if m_stackHeight a1 - stackHeight \<noteq> expectedItems then
        and_then
          (declarationError loc
             (''Variable count does not match number of values ('' @
              to_string (sint expectedItems) @ '' vs. '' @
              to_string (sint (m_stackHeight a1 - stackHeight)) @ '')'') a1)
          (\<lambda>u a2. Ok False a2)
      else
        and_then (visit_Assignment_loop variableNames 0 success a1)
          (\<lambda>success a2. Ok success (recordStackHeight addr a2))))"

text \<open>The calls of the resolver for the declared variables.\<close>

fun visit_VariableDeclaration_resolve :: "Resolver \<Rightarrow> TypedName list \<Rightarrow> unit step" where
  "visit_VariableDeclaration_resolve r [] a = Ok () a"
| "visit_VariableDeclaration_resolve r (variable # rest) a =
     (case m_currentScope a of
        None \<Rightarrow> Exc NullDereference a
      | Some cs \<Rightarrow>
          and_then
            (callResolver r (Identifier 0 (tn_location variable) (tn_name variable))
               VariableDeclarationContext (insideFunction cs) a)
            (\<lambda>n a1. visit_VariableDeclaration_resolve r rest a1))"

text \<open>The loop of the declaration over its variables, from index \<open>i\<close> on.\<close>

fun visit_VariableDeclaration_loop :: "TypedName list \<Rightarrow> nat \<Rightarrow> bool \<Rightarrow> bool step" where
  "visit_VariableDeclaration_loop [] i success a = Ok success a"
| "visit_VariableDeclaration_loop (variable # rest) i success a =
     (let givenType =
            (if i < length (m_typeOfCurrentExpression a) then m_typeOfCurrentExpression a ! i
             else defaultType (m_dialect a))
      in
      and_then (expectValidType (tn_type variable) (tn_location variable) a) (\<lambda>u a1.
      and_then
        (if tn_type variable \<noteq> givenType then
           and_then
             (typeError (tn_location variable)
                (''Assigning value of type '' @ [CHR 0x22] @ givenType @ [CHR 0x22] @
                 '' to variable of type '' @ [CHR 0x22] @ tn_type variable @ ''.'') a1)
             (\<lambda>u a2. Ok False a2)
         else Ok success a1)
        (\<lambda>success a2.
      case m_currentScope a2 of
        None \<Rightarrow> Exc NullDereference a2
      | Some cs \<Rightarrow>
          (case map_of (identifiers cs) (tn_name variable) of
             None \<Rightarrow> Exc OutOfRange a2
           | Some (Function ps rs) \<Rightarrow> Exc BadVariantAccess a2
           | Some (Variable t) \<Rightarrow>
               visit_VariableDeclaration_loop rest (Suc i) success
                 (a2\<lparr>m_activeVariables :=
                       insert (scope_addr cs, tn_name variable) (m_activeVariables a2)\<rparr>)))))"

definition visit_VariableDeclaration ::
  "Externals \<Rightarrow> nat \<Rightarrow> SourceLocation \<Rightarrow> TypedName list \<Rightarrow> Expression option \<Rightarrow> bool step" where
  "visit_VariableDeclaration ext addr loc variables val a =
     (let numVariables = (of_nat (length variables) :: 32 word);
          rest = (\<lambda>success a2.
            and_then (visit_VariableDeclaration_loop variables 0 success a2)
              (\<lambda>success a3. Ok success (recordStackHeight addr a3)))
      in
      and_then
        (case m_resolver a of
           None \<Rightarrow> Ok () a
         | Some r \<Rightarrow> visit_VariableDeclaration_resolve r variables a)
        (\<lambda>u a1.
      case val of
        Some v \<Rightarrow>
          (let stackHeight = m_stackHeight a1 in
           and_then (visit_Expression ext v a1) (\<lambda>success a2.
           let numValues = m_stackHeight a2 - stackHeight in
           if numValues \<noteq> numVariables then
             and_then
               (declarationError loc
                  (''Variable count mismatch: '' @ to_string (sint numVariables) @
                   '' variables and '' @ to_string (sint numValues) @ '' values.'') a2)
               (\<lambda>u a3. Ok False (a3\<lparr>m_stackHeight := m_stackHeight a3 + (numVariables - numValues)\<rparr>))
           else rest success a2))
      | None \<Rightarrow> rest True (a1\<lparr>m_stackHeight := m_stackHeight a1 + numVariables\<rparr>)))"

subsection \<open>Statements and blocks\<close>

text \<open>The loop of the function definition over its parameters and return variables.\<close>

fun visit_FunctionDefinition_loop :: "Scope \<Rightarrow> TypedName list \<Rightarrow> unit step" where
  "visit_FunctionDefinition_loop varScope [] a = Ok () a"
| "visit_FunctionDefinition_loop varScope (var # rest) a =
     and_then (expectValidType (tn_type var) (tn_location var) a) (\<lambda>u a1.
     case map_of (identifiers varScope) (tn_name var) of
       None \<Rightarrow> Exc OutOfRange a1
     | Some (Function ps rs) \<Rightarrow> Exc BadVariantAccess a1
     | Some (Variable t) \<Rightarrow>
         visit_FunctionDefinition_loop varScope rest
           (a1\<lparr>m_activeVariables := insert (scope_addr varScope, tn_name var) (m_activeVariables a1)\<rparr>))"

text \<open>The first loop of the switch: the type of every case value against the type of the expression.\<close>

fun visit_Switch_types :: "YulString \<Rightarrow> Case list \<Rightarrow> bool \<Rightarrow> bool step" where
  "visit_Switch_types valueType [] success a = Ok success a"
| "visit_Switch_types valueType (c # cs) success a =
     (case case_value c of
        None \<Rightarrow> visit_Switch_types valueType cs success a
      | Some l \<Rightarrow>
          and_then (expectType valueType (lit_type l) (lit_location l) a)
            (\<lambda>ok a1. visit_Switch_types valueType cs (success \<and> ok) a1))"

text \<open>The text of the declaration error at the end of an unbalanced block.\<close>

definition unbalancedStackMessage :: "32 word \<Rightarrow> string" where
  "unbalancedStackMessage stackDiff =
     ''Unbalanced stack at the end of a block: '' @
     (if word_sless 0 stackDiff
      then to_string (sint stackDiff) @ '' surplus item(s).''
      else to_string (sint (- stackDiff)) @ '' missing item(s).'')"

text \<open>
  \<open>visit_Statement\<close> is \<open>std::visit(*this, statement)\<close>, \<open>visit_Statements\<close> the loop of a
  block over its statements, and \<open>visit_Cases\<close> the second loop of the switch, with the
  set \<open>cases\<close> of the values seen.
\<close>

fun visit_Statement :: "Externals \<Rightarrow> Statement \<Rightarrow> bool step"
  and visit_Block :: "Externals \<Rightarrow> Block \<Rightarrow> bool step"
  and visit_Statements :: "Externals \<Rightarrow> Statement list \<Rightarrow> bool \<Rightarrow> bool step"
  and visit_Cases :: "Externals \<Rightarrow> Case list \<Rightarrow> 256 word set \<Rightarrow> bool \<Rightarrow> bool step"
where
  "visit_Statement ext (ExpressionStatement addr loc expression) a =
     visit_ExpressionStatement ext addr loc expression a"
| "visit_Statement ext (Assignment addr loc variableNames val) a =
     visit_Assignment ext addr loc variableNames val a"
| "visit_Statement ext (VariableDeclaration addr loc variables val) a =
     visit_VariableDeclaration ext addr loc variables val a"
| "visit_Statement ext (FunctionDefinition addr loc name parameters returnVariables body) a =
     (if name = [] then Exc AssertionFailed a else
      case virtualBlocks (m_info a) addr of
        None \<Rightarrow> Exc OutOfRange a
      | Some None \<Rightarrow> Exc AssertionFailed a
      | Some (Some virtualBlock) \<Rightarrow>
      and_then (scope virtualBlock a) (\<lambda>varScope a1.
      and_then (visit_FunctionDefinition_loop varScope (parameters @ returnVariables) a1) (\<lambda>u a2.
      let stackHeight = m_stackHeight a2;
          a3 = a2\<lparr>m_stackHeight := of_nat (length parameters + length returnVariables)\<rparr>
      in
      and_then (visit_Block ext body a3) (\<lambda>success a4.
      Ok success (recordStackHeight addr (a4\<lparr>m_stackHeight := stackHeight\<rparr>))))))"
| "visit_Statement ext (If addr loc condition body) a =
     (let initialHeight = m_stackHeight a in
      case condition of
        None \<Rightarrow> Exc NullDereference a
      | Some c \<Rightarrow>
      and_then (expectExpression ext c a) (\<lambda>ok a1.
      and_then
        (if \<not> ok then Ok False a1
         else (case m_typeOfCurrentExpression a1 of
                 [] \<Rightarrow> Exc OutOfRange a1
               | t # ts \<Rightarrow> expectType (boolType (m_dialect a1)) t (locationOf c) a1))
        (\<lambda>success a2.
      and_then (visit_Block ext body (a2\<lparr>m_stackHeight := initialHeight\<rparr>)) (\<lambda>ok a3.
      Ok (success \<and> ok) (recordStackHeight addr a3)))))"
| "visit_Statement ext (Switch addr loc expression cases) a =
     (case expression of
        None \<Rightarrow> Exc AssertionFailed a
      | Some e \<Rightarrow>
      let initialHeight = m_stackHeight a in
      and_then (expectExpression ext e a) (\<lambda>success a1.
      and_then
        (if success then
           (case m_typeOfCurrentExpression a1 of
              [] \<Rightarrow> Exc OutOfRange a1
            | t # ts \<Rightarrow> Ok t a1)
         else Ok (defaultType (m_dialect a1)) a1)
        (\<lambda>valueType a2.
      and_then (visit_Switch_types valueType cases success a2) (\<lambda>success a3.
      and_then (visit_Cases ext cases {} success a3) (\<lambda>success a4.
      Ok success (recordStackHeight addr (a4\<lparr>m_stackHeight := initialHeight\<rparr>)))))))"
| "visit_Statement ext (ForLoop addr loc pre condition post body) a =
     (case condition of
        None \<Rightarrow> Exc AssertionFailed a
      | Some c \<Rightarrow>
      let outerScope = m_currentScope a;
          initialHeight = m_stackHeight a
      in
      and_then (visit_Block ext pre a) (\<lambda>success a1.
      and_then (scope (block_addr pre) a1) (\<lambda>preScope a2.
      let a3 = a2\<lparr>m_stackHeight := m_stackHeight a2 + of_nat (numberOfVariables preScope),
                  m_currentScope := Some preScope\<rparr>
      in
      and_then (expectExpression ext c a3) (\<lambda>ok a4.
      and_then
        (if \<not> ok then Ok False a4
         else (case m_typeOfCurrentExpression a4 of
                 [] \<Rightarrow> Exc OutOfRange a4
               | t # ts \<Rightarrow>
                   and_then (expectType (boolType (m_dialect a4)) t (locationOf c) a4)
                     (\<lambda>ok a5. Ok (success \<and> ok) a5)))
        (\<lambda>success a5.
      let outerForLoop = m_currentForLoop a5;
          a6 = a5\<lparr>m_stackHeight := m_stackHeight a5 - 1, m_currentForLoop := Some addr\<rparr>
      in
      and_then (visit_Block ext body a6) (\<lambda>ok a7.
      let success = (success \<and> ok) in
      and_then (visit_Block ext post a7) (\<lambda>ok a8.
      let success = (success \<and> ok) in
      Ok success
        ((recordStackHeight addr (a8\<lparr>m_stackHeight := initialHeight\<rparr>))
           \<lparr>m_currentScope := outerScope, m_currentForLoop := outerForLoop\<rparr>))))))))"
| "visit_Statement ext (Break addr loc) a = Ok True (recordStackHeight addr a)"
| "visit_Statement ext (Continue addr loc) a = Ok True (recordStackHeight addr a)"
| "visit_Statement ext (Leave addr loc) a = Ok True (recordStackHeight addr a)"
| "visit_Statement ext (BlockStatement block) a = visit_Block ext block a"
| "visit_Block ext (Block addr loc statements) a =
     (let previousScope = m_currentScope a in
      and_then (scope addr a) (\<lambda>blockScope a1.
      let a2 = a1\<lparr>m_currentScope := Some blockScope\<rparr>;
          initialStackHeight = m_stackHeight a2
      in
      and_then (visit_Statements ext statements True a2) (\<lambda>success a3.
      and_then (scope addr a3) (\<lambda>blockScope a4.
      let a5 = a4\<lparr>m_stackHeight := m_stackHeight a4 - of_nat (numberOfVariables blockScope)\<rparr>;
          stackDiff = m_stackHeight a5 - initialStackHeight
      in
      and_then
        (if success \<and> stackDiff \<noteq> 0 then
           and_then (declarationError loc (unbalancedStackMessage stackDiff) a5)
             (\<lambda>u a6. Ok False a6)
         else Ok success a5)
        (\<lambda>success a6.
      Ok success ((recordStackHeight addr a6)\<lparr>m_currentScope := previousScope\<rparr>))))))"
| "visit_Statements ext [] success a = Ok success a"
| "visit_Statements ext (s # rest) success a =
     and_then (visit_Statement ext s a) (\<lambda>ok a1. visit_Statements ext rest (success \<and> ok) a1)"
| "visit_Cases ext [] cases success a = Ok success a"
| "visit_Cases ext (Case cloc cval body # rest) cases success a =
     and_then
       (case cval of
          None \<Rightarrow> Ok (cases, success) a
        | Some l \<Rightarrow>
            (let initialStackHeight = m_stackHeight a in
             and_then (visit_Literal ext l a) (\<lambda>isCaseValueValid a1.
             let success = (success \<and> isCaseValueValid) in
             and_then (expectDeposit 1 initialStackHeight (lit_location l) a1) (\<lambda>deposited a2.
             let a3 = a2\<lparr>m_stackHeight := m_stackHeight a2 - 1\<rparr> in
             if \<not> (isCaseValueValid \<or> hasErrors (m_errorReporter a3)) then Exc AssertionFailed a3
             else if isCaseValueValid then
               (case valueOfLiteral ext l of
                  Inl e \<Rightarrow> Exc e a3
                | Inr v \<Rightarrow>
                    if v \<in> cases then
                      and_then (declarationError cloc ''Duplicate case defined.'' a3)
                        (\<lambda>u a4. Ok (cases, False) a4)
                    else Ok (insert v cases, success) a3)
             else Ok (cases, success) a3))))
       (\<lambda>(cases, success) a5.
     and_then (visit_Block ext body a5) (\<lambda>ok a6.
     visit_Cases ext rest cases (success \<and> ok) a6))"

subsection \<open>The entry point\<close>

text \<open>
  The scope filler (libyul/AsmScopeFiller.cpp) is a parameter: from the analysis info,
  the reporter and the block it gives its verdict, the info with the scopes filled in,
  and the reporter.
\<close>

type_synonym ScopeFiller =
  "AsmAnalysisInfo \<Rightarrow> ErrorReporter \<Rightarrow> Block \<Rightarrow> (bool, AsmAnalysisInfo \<times> ErrorReporter) res"

definition runScopeFiller :: "ScopeFiller \<Rightarrow> Block \<Rightarrow> bool step" where
  "runScopeFiller filler block a =
     (case filler (m_info a) (m_errorReporter a) block of
        Ok filled (info, r) \<Rightarrow> Ok filled (a\<lparr>m_info := info, m_errorReporter := r\<rparr>)
      | Exc e (info, r) \<Rightarrow> Exc e (a\<lparr>m_info := info, m_errorReporter := r\<rparr>))"

text \<open>
  The body of the \<open>try\<close> block gives \<open>None\<close> where the source returns false from
  inside it, and the value of \<open>success\<close> otherwise.
\<close>

definition analyze :: "Externals \<Rightarrow> ScopeFiller \<Rightarrow> Block \<Rightarrow> bool step" where
  "analyze ext filler block a =
     (case
        and_then (runScopeFiller filler block a) (\<lambda>filled a1.
        if \<not> filled then Ok None a1
        else
          and_then (visit_Block ext block a1) (\<lambda>success a2.
          if \<not> success \<and> \<not> hasErrors (m_errorReporter a2) then Exc AssertionFailed a2
          else Ok (Some success) a2))
      of
        Ok None a1 \<Rightarrow> Ok False a1
      | Ok (Some success) a2 \<Rightarrow> Ok (success \<and> \<not> hasErrors (m_errorReporter a2)) a2
      | Exc e a3 \<Rightarrow>
          if e = FatalError then
            if errors (m_errorReporter a3) = [] then Exc AssertionFailed a3
            else Ok (False \<and> \<not> hasErrors (m_errorReporter a3)) a3
          else Exc e a3)"

section \<open>Notions for the statements about the walk\<close>

text \<open>The exception that ended a call, if one did.\<close>

fun thrown :: "('a, 's) res \<Rightarrow> exn option" where
  "thrown (Ok x s) = None"
| "thrown (Exc e s) = Some e"

text \<open>
  \<open>always R a r\<close>: the state that the outcome \<open>r\<close> carries is related to the state \<open>a\<close>,
  whether the call returned or threw. \<open>keeps\<close> is the relation itself, as a predicate of
  its own.
\<close>

definition always :: "('s \<Rightarrow> 's \<Rightarrow> bool) \<Rightarrow> 's \<Rightarrow> ('a, 's) res \<Rightarrow> bool" where
  "always R a r = R a (state_of r)"

definition keeps :: "('s \<Rightarrow> 's \<Rightarrow> bool) \<Rightarrow> 's \<Rightarrow> 's \<Rightarrow> bool" where
  "keeps R a b = R a b"

text \<open>
  A relation between an earlier and a later state is stable when it is reflexive and
  transitive and no step of an expression leaves it: a new stack height, a new type
  vector, a recorded stack height, one more diagnostic. It is inserting when one more
  active variable does not leave it either.
\<close>

definition stable :: "(AsmAnalyzer \<Rightarrow> AsmAnalyzer \<Rightarrow> bool) \<Rightarrow> bool" where
  "stable R \<longleftrightarrow>
     (\<forall>a. R a a) \<and>
     (\<forall>a b c. R a b \<longrightarrow> R b c \<longrightarrow> R a c) \<and>
     (\<forall>a h. R a (a\<lparr>m_stackHeight := h\<rparr>)) \<and>
     (\<forall>a ts. R a (a\<lparr>m_typeOfCurrentExpression := ts\<rparr>)) \<and>
     (\<forall>a addr. R a (recordStackHeight addr a)) \<and>
     (\<forall>a e. R a (a\<lparr>m_errorReporter :=
                     (m_errorReporter a)\<lparr>errors := errors (m_errorReporter a) @ [e]\<rparr>\<rparr>))"

definition inserting :: "(AsmAnalyzer \<Rightarrow> AsmAnalyzer \<Rightarrow> bool) \<Rightarrow> bool" where
  "inserting R \<longleftrightarrow>
     (\<forall>a v. R a (a\<lparr>m_activeVariables := insert v (m_activeVariables a)\<rparr>))"

text \<open>The later state has the diagnostics and the active variables of the earlier one, and maybe more.\<close>

definition grows :: "AsmAnalyzer \<Rightarrow> AsmAnalyzer \<Rightarrow> bool" where
  "grows a b \<longleftrightarrow>
     prefix (errors (m_errorReporter a)) (errors (m_errorReporter b)) \<and>
     m_activeVariables a \<subseteq> m_activeVariables b"

text \<open>The later state has the current scope and the current loop of the earlier one.\<close>

definition frame :: "AsmAnalyzer \<Rightarrow> AsmAnalyzer \<Rightarrow> bool" where
  "frame a b \<longleftrightarrow>
     m_currentScope b = m_currentScope a \<and> m_currentForLoop b = m_currentForLoop a"

text \<open>The state with one more diagnostic in the reporter.\<close>

definition withError :: "Error \<Rightarrow> AsmAnalyzer \<Rightarrow> AsmAnalyzer" where
  "withError e a =
     a\<lparr>m_errorReporter := (m_errorReporter a)\<lparr>errors := errors (m_errorReporter a) @ [e]\<rparr>\<rparr>"


text \<open>The stack height recorded for a node is the current stack height.\<close>

definition recorded :: "nat \<Rightarrow> AsmAnalyzer \<Rightarrow> bool" where
  "recorded addr a = (stackHeightInfo (m_info a) addr = Some (m_stackHeight a))"





text \<open>
  The later state has the scopes, the virtual blocks, the dialect, the machine version,
  the resolver, the data names and the capacity of the reporter of the earlier one.
\<close>

definition sameSetting :: "AsmAnalyzer \<Rightarrow> AsmAnalyzer \<Rightarrow> bool" where
  "sameSetting a b \<longleftrightarrow>
     scopes (m_info b) = scopes (m_info a) \<and>
     virtualBlocks (m_info b) = virtualBlocks (m_info a) \<and>
     m_dialect b = m_dialect a \<and> m_evmVersion b = m_evmVersion a \<and>
     m_resolver b = m_resolver a \<and> m_dataNames b = m_dataNames a \<and>
     maxErrors (m_errorReporter b) = maxErrors (m_errorReporter a)"

text \<open>\<open>returns R a r\<close>: when the outcome \<open>r\<close> is a return, its state is related to \<open>a\<close>.\<close>

definition returns :: "('s \<Rightarrow> 's \<Rightarrow> bool) \<Rightarrow> 's \<Rightarrow> ('a, 's) res \<Rightarrow> bool" where
  "returns R a r = (\<forall>x s. r = Ok x s \<longrightarrow> R a s)"

text \<open>
  The literals that the handler of a literal accepts: a string of at most 32 bytes, a
  number of at most 256 bits.
\<close>

definition fitsInWord :: "Externals \<Rightarrow> Literal \<Rightarrow> bool" where
  "fitsInWord ext l \<longleftrightarrow>
     \<not> (lit_kind l = String \<and> 32 < length (lit_value l)) \<and>
     \<not> (lit_kind l = Number \<and> 2 ^ 256 - 1 < bigint ext (lit_value l))"


text \<open>
  The variables that a list of typed names declares in a scope, as the analyzer keeps
  them in the set of active variables; in no scope there are none.
\<close>

definition declaredIn :: "Scope option \<Rightarrow> TypedName list \<Rightarrow> VariablePtr set" where
  "declaredIn cur vs =
     (case cur of None \<Rightarrow> {} | Some sc \<Rightarrow> (\<lambda>v. (scope_addr sc, tn_name v)) ` set vs)"

text \<open>The scope that the table of scopes has for a block, if it has one.\<close>

definition scopeOf :: "(nat \<Rightarrow> Scope option option) \<Rightarrow> nat \<Rightarrow> Scope option" where
  "scopeOf scs n = (case scs n of Some (Some sc) \<Rightarrow> Some sc | _ \<Rightarrow> None)"

text \<open>
  The variables that the declarations and the function definitions of a statement
  declare, given the table of scopes, the table of virtual blocks and the scope that is
  current where the statement stands: a declaration declares its variables in the
  current scope, a function definition its parameters and return variables in the scope
  of its virtual block, and the statements of a block stand in the scope of the block.
\<close>

fun declared ::
    "(nat \<Rightarrow> Scope option option) \<Rightarrow> (nat \<Rightarrow> nat option option) \<Rightarrow> Scope option \<Rightarrow> Statement \<Rightarrow>
       VariablePtr set"
  and declaredBlock ::
    "(nat \<Rightarrow> Scope option option) \<Rightarrow> (nat \<Rightarrow> nat option option) \<Rightarrow> Block \<Rightarrow> VariablePtr set"
  and declaredStatements ::
    "(nat \<Rightarrow> Scope option option) \<Rightarrow> (nat \<Rightarrow> nat option option) \<Rightarrow> Scope option \<Rightarrow>
       Statement list \<Rightarrow> VariablePtr set"
  and declaredCases ::
    "(nat \<Rightarrow> Scope option option) \<Rightarrow> (nat \<Rightarrow> nat option option) \<Rightarrow> Case list \<Rightarrow> VariablePtr set"
where
  "declared scs vbs cur (ExpressionStatement addr loc e) = {}"
| "declared scs vbs cur (Assignment addr loc vs v) = {}"
| "declared scs vbs cur (VariableDeclaration addr loc variables v) = declaredIn cur variables"
| "declared scs vbs cur (FunctionDefinition addr loc name parameters returnVariables body) =
     declaredIn (case vbs addr of Some (Some virtualBlock) \<Rightarrow> scopeOf scs virtualBlock | _ \<Rightarrow> None)
       (parameters @ returnVariables) \<union>
     declaredBlock scs vbs body"
| "declared scs vbs cur (If addr loc c body) = declaredBlock scs vbs body"
| "declared scs vbs cur (Switch addr loc e cases) = declaredCases scs vbs cases"
| "declared scs vbs cur (ForLoop addr loc pre c post body) =
     declaredBlock scs vbs pre \<union> declaredBlock scs vbs body \<union> declaredBlock scs vbs post"
| "declared scs vbs cur (Break addr loc) = {}"
| "declared scs vbs cur (Continue addr loc) = {}"
| "declared scs vbs cur (Leave addr loc) = {}"
| "declared scs vbs cur (BlockStatement block) = declaredBlock scs vbs block"
| "declaredBlock scs vbs (Block addr loc statements) =
     declaredStatements scs vbs (scopeOf scs addr) statements"
| "declaredStatements scs vbs cur [] = {}"
| "declaredStatements scs vbs cur (s # rest) =
     declared scs vbs cur s \<union> declaredStatements scs vbs cur rest"
| "declaredCases scs vbs [] = {}"
| "declaredCases scs vbs (Case cloc cval body # rest) =
     declaredBlock scs vbs body \<union> declaredCases scs vbs rest"


text \<open>
  The value that the switch puts into the set of the values seen for a case: the value
  of its literal, when the case has a literal and the handler of a literal accepts it.
\<close>

definition caseValue :: "Externals \<Rightarrow> Case \<Rightarrow> 256 word option" where
  "caseValue ext c =
     (case case_value c of
        None \<Rightarrow> None
      | Some l \<Rightarrow>
          if fitsInWord ext l
          then (case valueOfLiteral ext l of Inl e \<Rightarrow> None | Inr v \<Rightarrow> Some v)
          else None)"

section \<open>Example collaborators and programs\<close>

text \<open>A reader of decimal numbers for \<open>bigint\<close> and \<open>valueOfLiteral\<close>.\<close>

definition decimal :: "string \<Rightarrow> int" where
  "decimal s = foldl (\<lambda>n c. 10 * n + (int (of_char c) - 48)) 0 s"

definition ext0 :: Externals where
  "ext0 = \<lparr>bigint = decimal,
            valueOfLiteral = (\<lambda>l. Inr (word_of_int (decimal (lit_value l)))),
            strictAssemblyBuiltin = (\<lambda>n. if n = ''jump'' then Some (Some JUMP) else None),
            instructionName = (\<lambda>i. ''JUMP'')\<rparr>"

text \<open>A typed dialect with the built-in function \<open>add\<close>.\<close>

definition dialect0 :: Dialect where
  "dialect0 =
     \<lparr>defaultType = ''u256'', boolType = ''bool'', types = {''u256'', ''bool''},
      builtin = (\<lambda>n. if n = ''add''
                      then Some \<lparr>bf_name = ''add'', bf_parameters = [''u256'', ''u256''],
                                 bf_returns = [''u256''], bf_literalArguments = False\<rparr>
                      else None),
      validTypeForLiteral = (\<lambda>k v t. True)\<rparr>"

definition evm0 :: EVMVersion where
  "evm0 = \<lparr>supportsReturndata = True, hasStaticCall = True, hasBitwiseShifting = True,
            hasCreate2 = True, hasExtCodeHash = True, hasChainID = True, hasSelfBalance = True,
            evm_name = ''istanbul''\<rparr>"

text \<open>A fresh analyzer over given scopes, with room for \<open>n\<close> diagnostics.\<close>

definition fresh :: "(nat \<Rightarrow> Scope option option) \<Rightarrow> nat \<Rightarrow> AsmAnalyzer" where
  "fresh sc n =
     \<lparr>m_stackHeight = 0, m_resolver = None, m_currentScope = None,
      m_info = \<lparr>scopes = sc, virtualBlocks = (\<lambda>f. None), stackHeightInfo = (\<lambda>n. None)\<rparr>,
      m_errorReporter = \<lparr>errors = [], maxErrors = n\<rparr>, m_evmVersion = evm0,
      m_dialect = dialect0, m_dataNames = {}, m_currentForLoop = None,
      m_activeVariables = {}, m_typeOfCurrentExpression = []\<rparr>"

text \<open>An analyzer inside a block whose scope is empty.\<close>

definition emptyScopeState :: AsmAnalyzer where
  "emptyScopeState = (fresh (\<lambda>n. None) 256)\<lparr>m_currentScope := Some (Scope 1 [] None False)\<rparr>"

text \<open>The statement \<open>y\<close>, where nothing declares \<open>y\<close>, and the statement \<open>7\<close>.\<close>

definition unknownIdentifierStatement :: "AsmAnalyzer \<Rightarrow> (bool, AsmAnalyzer) res" where
  "unknownIdentifierStatement a =
     visit_ExpressionStatement ext0 2 (0, 0) (ExprIdentifier (Identifier 3 (1, 1) ''y'')) a"

definition seven :: Expression where
  "seven = ExprLiteral (Literal 3 (1, 1) Number ''7'' ''u256'')"

text \<open>The calls \<open>foo()\<close> and \<open>jump(7)\<close>; nothing declares \<open>foo\<close> or \<open>jump\<close>.\<close>

definition unknownCall :: Expression where
  "unknownCall = FunctionCall 5 (0, 0) (Identifier 6 (1, 1) ''foo'') []"

definition jumpCall :: Expression where
  "jumpCall = FunctionCall 5 (0, 0) (Identifier 6 (1, 1) ''jump'') [seven]"

text \<open>
  An analyzer inside a block that declares the function \<open>f(a: bool, b: u256)\<close>, and the
  call \<open>f(true, 1)\<close>.
\<close>

definition functionScopeState :: AsmAnalyzer where
  "functionScopeState =
     (fresh (\<lambda>n. None) 256)
       \<lparr>m_currentScope := Some (Scope 1 [(''f'', Function [''bool'', ''u256''] [])] None False)\<rparr>"

definition typedCall :: Expression where
  "typedCall =
     FunctionCall 5 (0, 0) (Identifier 6 (1, 1) ''f'')
       [ExprLiteral (Literal 7 (2, 2) Boolean ''true'' ''bool''),
        ExprLiteral (Literal 8 (3, 3) Number ''1'' ''u256'')]"





text \<open>
  A scope filler that installs given scopes and accepts, the block \<open>{ 7 }\<close>, and the
  scopes that give block 1 an empty scope or a scope with the variable \<open>x\<close>.
\<close>

definition fillWith :: "(nat \<Rightarrow> Scope option option) \<Rightarrow> ScopeFiller" where
  "fillWith sc info r block = Ok True (info\<lparr>scopes := sc\<rparr>, r)"

definition blockOfSeven :: Block where
  "blockOfSeven = Block 1 (0, 0) [ExpressionStatement 2 (0, 0) seven]"

definition oneEmptyScope :: "nat \<Rightarrow> Scope option option" where
  "oneEmptyScope n = (if n = 1 then Some (Some (Scope 1 [] None False)) else None)"

definition oneVariableScope :: "nat \<Rightarrow> Scope option option" where
  "oneVariableScope n = (if n = 1 then Some (Some (Scope 1 [(''x'', Variable ''u256'')] None False)) else None)"

text \<open>
  The scope of an outermost block, an analyzer inside that block, and the scopes of the
  two examples that follow.
\<close>

definition outerScope :: Scope where
  "outerScope = Scope 1 [] None False"

definition inOuterScope :: "(nat \<Rightarrow> Scope option option) \<Rightarrow> AsmAnalyzer" where
  "inOuterScope sc = (fresh sc 256)\<lparr>m_currentScope := Some outerScope\<rparr>"

definition switchScopes :: "nat \<Rightarrow> Scope option option" where
  "switchScopes n =
     (if n = 10 \<or> n = 11 then Some (Some (Scope n [] (Some outerScope) False)) else None)"

definition loopScope :: Scope where
  "loopScope = Scope 10 [(''i'', Variable ''u256'')] (Some outerScope) False"

definition forScopes :: "nat \<Rightarrow> Scope option option" where
  "forScopes n =
     (if n = 10 then Some (Some loopScope)
      else if n = 11 \<or> n = 12 then Some (Some (Scope n [] (Some loopScope) False))
      else None)"

text \<open>The statement \<open>switch 7 case 1 {} case 01 {}\<close>.\<close>

definition duplicateSwitch :: Statement where
  "duplicateSwitch =
     Switch 2 (0, 0) (Some seven)
       [Case (1, 1) (Some (Literal 4 (4, 4) Number ''1'' ''u256'')) (Block 10 (0, 0) []),
        Case (2, 2) (Some (Literal 5 (5, 5) Number ''01'' ''u256'')) (Block 11 (0, 0) [])]"

text \<open>The statement \<open>switch 7 case 1 {} default {}\<close>.\<close>

definition defaultSwitch :: Statement where
  "defaultSwitch =
     Switch 2 (0, 0) (Some seven)
       [Case (1, 1) (Some (Literal 4 (4, 4) Number ''1'' ''u256'')) (Block 10 (0, 0) []),
        Case (2, 2) None (Block 11 (0, 0) [])]"

text \<open>The statement \<open>for { let i := 7 } true {} {}\<close>.\<close>

definition forLoopExample :: Statement where
  "forLoopExample =
     ForLoop 2 (0, 0)
       (Block 10 (0, 0) [VariableDeclaration 4 (0, 0) [TypedName (0, 0) ''i'' ''u256''] (Some seven)])
       (Some (ExprLiteral (Literal 5 (5, 5) Boolean ''true'' ''bool'')))
       (Block 11 (0, 0) []) (Block 12 (0, 0) [])"





section \<open>Outcomes and stable relations\<close>

declare to_string_nat.simps [simp del]
declare expectExpression.simps [simp del]

lemma and_then_eq_Ok: "(and_then r f = Ok y b) = (\<exists>x a. r = Ok x a \<and> f x a = Ok y b)"
  by (cases r) auto

lemma always_Ok: "keeps R a b \<Longrightarrow> always R a (Ok x b)"
  by (simp add: always_def keeps_def)

lemma always_Exc: "keeps R a b \<Longrightarrow> always R a (Exc e b)"
  by (simp add: always_def keeps_def)

lemma always_if:
  "(c \<Longrightarrow> always R a x) \<Longrightarrow> (\<not> c \<Longrightarrow> always R a y) \<Longrightarrow> always R a (if c then x else y)"
  by simp

lemma always_option:
  "(v = None \<Longrightarrow> always R a x) \<Longrightarrow> (\<And>w. v = Some w \<Longrightarrow> always R a (f w)) \<Longrightarrow>
   always R a (case v of None \<Rightarrow> x | Some w \<Rightarrow> f w)"
  by (cases v) auto

lemma always_list:
  "(v = [] \<Longrightarrow> always R a x) \<Longrightarrow> (\<And>w ws. v = w # ws \<Longrightarrow> always R a (f w ws)) \<Longrightarrow>
   always R a (case v of [] \<Rightarrow> x | w # ws \<Rightarrow> f w ws)"
  by (cases v) auto

lemma always_prod:
  "(\<And>x y. v = (x, y) \<Longrightarrow> always R a (f x y)) \<Longrightarrow> always R a (case v of (x, y) \<Rightarrow> f x y)"
  by (cases v) auto

lemma always_prod_fun:
  "(\<And>x y. v = (x, y) \<Longrightarrow> always R a (f x y s)) \<Longrightarrow> always R a ((case v of (x, y) \<Rightarrow> f x y) s)"
  by (cases v) auto

lemma always_sum:
  "(\<And>x. v = Inl x \<Longrightarrow> always R a (f x)) \<Longrightarrow> (\<And>y. v = Inr y \<Longrightarrow> always R a (g y)) \<Longrightarrow>
   always R a (case v of Inl x \<Rightarrow> f x | Inr y \<Rightarrow> g y)"
  by (cases v) auto

lemma always_ScopeIdentifier:
  "(\<And>t. v = Variable t \<Longrightarrow> always R a (f t)) \<Longrightarrow> (\<And>ps rs. v = Function ps rs \<Longrightarrow> always R a (g ps rs)) \<Longrightarrow>
   always R a (case v of Variable t \<Rightarrow> f t | Function ps rs \<Rightarrow> g ps rs)"
  by (cases v) auto

lemma always_Expression:
  "(\<And>x1 x2 x3 x4. v = FunctionCall x1 x2 x3 x4 \<Longrightarrow> always R a (f x1 x2 x3 x4)) \<Longrightarrow>
   (\<And>i. v = ExprIdentifier i \<Longrightarrow> always R a (g i)) \<Longrightarrow>
   (\<And>l. v = ExprLiteral l \<Longrightarrow> always R a (h l)) \<Longrightarrow>
   always R a (case v of FunctionCall x1 x2 x3 x4 \<Rightarrow> f x1 x2 x3 x4 | ExprIdentifier i \<Rightarrow> g i | ExprLiteral l \<Rightarrow> h l)"
  by (cases v) auto

lemmas always_cases =
  always_if always_option always_list always_prod always_prod_fun always_sum always_ScopeIdentifier
  always_Expression always_Ok always_Exc

lemma stable_refl: "stable R \<Longrightarrow> keeps R a a"
  by (simp add: stable_def keeps_def)

lemma stable_trans: "stable R \<Longrightarrow> R a b \<Longrightarrow> R b c \<Longrightarrow> R a c"
  unfolding stable_def by blast

lemma stable_height: "stable R \<Longrightarrow> keeps R a b \<Longrightarrow> keeps R a (b\<lparr>m_stackHeight := h\<rparr>)"
  unfolding stable_def keeps_def by blast

lemma stable_type: "stable R \<Longrightarrow> keeps R a b \<Longrightarrow> keeps R a (b\<lparr>m_typeOfCurrentExpression := ts\<rparr>)"
  unfolding stable_def keeps_def by blast

lemma stable_record: "stable R \<Longrightarrow> keeps R a b \<Longrightarrow> keeps R a (recordStackHeight addr b)"
  unfolding stable_def keeps_def by blast

lemma stable_active:
  "stable R \<Longrightarrow> inserting R \<Longrightarrow> keeps R a b \<Longrightarrow>
   keeps R a (b\<lparr>m_activeVariables := insert v (m_activeVariables b)\<rparr>)"
  unfolding stable_def inserting_def keeps_def by blast

lemma stable_and_then:
  "stable R \<Longrightarrow> always R a r \<Longrightarrow> (\<And>x a1. r = Ok x a1 \<Longrightarrow> always R a1 (f x a1)) \<Longrightarrow>
   always R a (and_then r f)"
  by (cases r) (auto simp: always_def intro: stable_trans)

lemma stable_report: "stable R \<Longrightarrow> keeps R a b \<Longrightarrow> always R a (report t loc msg b)"
proof -
  assume st: "stable R" and "keeps R a b"
  then have ab: "R a b" by (simp add: keeps_def)
  have "R b (b\<lparr>m_errorReporter := (m_errorReporter b)\<lparr>errors := errors (m_errorReporter b) @ [(t, loc, msg)]\<rparr>\<rparr>)"
    using st unfolding stable_def by blast
  then show ?thesis
    using stable_trans [OF st ab] by (simp add: always_def report_def error_def Let_def)
qed

lemma stable_typeError: "stable R \<Longrightarrow> keeps R a b \<Longrightarrow> always R a (typeError loc msg b)"
  by (simp add: typeError_def stable_report)

lemma stable_declarationError: "stable R \<Longrightarrow> keeps R a b \<Longrightarrow> always R a (declarationError loc msg b)"
  by (simp add: declarationError_def stable_report)

lemmas stable_intros =
  stable_and_then always_cases stable_refl stable_height stable_type stable_record stable_active
  stable_report stable_typeError stable_declarationError

lemma stable_expectValidType: "stable R \<Longrightarrow> keeps R a b \<Longrightarrow> always R a (expectValidType t loc b)"
  unfolding expectValidType_def by (intro stable_intros; assumption)

lemma stable_expectType: "stable R \<Longrightarrow> keeps R a b \<Longrightarrow> always R a (expectType t u loc b)"
  unfolding expectType_def by (intro stable_intros; assumption)

lemma stable_expectDeposit: "stable R \<Longrightarrow> keeps R a b \<Longrightarrow> always R a (expectDeposit d h loc b)"
  unfolding expectDeposit_def by (intro stable_intros; assumption)

lemma stable_visit_Literal: "stable R \<Longrightarrow> keeps R a b \<Longrightarrow> always R a (visit_Literal ext l b)"
  unfolding visit_Literal_def Let_def
  by (intro stable_intros stable_expectValidType; assumption)

lemma stable_reportAll: "stable R \<Longrightarrow> keeps R a b \<Longrightarrow> always R a (reportAll es b)"
proof (induction es arbitrary: a b)
  case Nil
  then show ?case by (simp add: always_def keeps_def)
next
  case (Cons e es)
  obtain t loc msg where e: "e = (t, loc, msg)" by (cases e) auto
  show ?case unfolding e reportAll.simps
    by (intro stable_intros Cons.IH Cons.prems)
qed

lemma stable_callResolver: "stable R \<Longrightarrow> keeps R a b \<Longrightarrow> always R a (callResolver r i c f b)"
  unfolding callResolver_def by (intro stable_intros stable_reportAll; assumption)

lemma stable_visit_Identifier: "stable R \<Longrightarrow> keeps R a b \<Longrightarrow> always R a (visit_Identifier ext i b)"
  unfolding visit_Identifier_def Let_def
  by (intro stable_intros stable_callResolver; assumption)

lemma stable_warnOnInstructions: "stable R \<Longrightarrow> keeps R a b \<Longrightarrow> always R a (warnOnInstructions ext i loc b)"
  unfolding warnOnInstructions_def Let_def
  by (intro stable_intros; assumption)

lemma stable_warnOnInstructions_name:
  "stable R \<Longrightarrow> keeps R a b \<Longrightarrow> always R a (warnOnInstructions_name ext n loc b)"
  unfolding warnOnInstructions_name_def
  by (intro stable_intros stable_warnOnInstructions; assumption)

lemma stable_visit_FunctionCall_types:
  "stable R \<Longrightarrow> keeps R a b \<Longrightarrow> always R a (visit_FunctionCall_types ps ats args is s b)"
proof (induction "is" arbitrary: s a b)
  case Nil
  then show ?case by (simp add: always_def keeps_def)
next
  case (Cons i "is")
  show ?case unfolding visit_FunctionCall_types.simps
    by (intro stable_intros stable_expectType Cons.IH Cons.prems)
qed

lemma stable_expectExpression:
  assumes "stable R" and "keeps R a b"
    and "\<And>a b. keeps R a b \<Longrightarrow> always R a (visit_Expression ext e b)"
  shows "always R a (expectExpression ext e b)"
  unfolding expectExpression.simps Let_def
  by (intro stable_intros stable_expectDeposit assms)

lemma stable_visit_Arguments:
  assumes "stable R" and "keeps R a b"
    and "\<And>e a b. e \<in> set args \<Longrightarrow> keeps R a b \<Longrightarrow> always R a (visit_Expression ext e b)"
  shows "always R a (visit_Arguments ext nla floc args s ats b)"
  using assms
proof (induction args arbitrary: s ats a b)
  case Nil
  then show ?case by (simp add: always_def keeps_def)
next
  case (Cons e es)
  have tl: "\<And>s ats a b. keeps R a b \<Longrightarrow> always R a (visit_Arguments ext nla floc es s ats b)"
    using Cons.IH [OF Cons.prems(1)] Cons.prems(3) by simp
  have hd: "\<And>a b. keeps R a b \<Longrightarrow> always R a (expectExpression ext e b)"
    using stable_expectExpression [OF Cons.prems(1)] Cons.prems(3) by simp
  show ?case unfolding visit_Arguments.simps
    by (intro stable_intros tl hd Cons.prems(1,2))
qed

lemma stable_visit_Expression:
  "stable R \<Longrightarrow> keeps R a b \<Longrightarrow> always R a (visit_Expression ext e b)"
proof (induction e arbitrary: a b)
  case (FunctionCall addr loc fname args)
  have args: "\<And>nla floc s ats a b. keeps R a b \<Longrightarrow> always R a (visit_Arguments ext nla floc args s ats b)"
    using stable_visit_Arguments [OF FunctionCall.prems(1)] FunctionCall.IH FunctionCall.prems(1)
    by blast
  show ?case unfolding visit_Expression.simps Let_def
    by (intro stable_intros stable_warnOnInstructions_name stable_visit_FunctionCall_types args
        FunctionCall.prems)
next
  case (ExprIdentifier i)
  then show ?case by (simp add: stable_visit_Identifier)
next
  case (ExprLiteral l)
  then show ?case by (simp add: stable_visit_Literal)
qed

lemma stable_visit_ExpressionStatement:
  "stable R \<Longrightarrow> keeps R a b \<Longrightarrow> always R a (visit_ExpressionStatement ext addr loc e b)"
  unfolding visit_ExpressionStatement_def Let_def
  by (intro stable_intros stable_visit_Expression; assumption)

lemma stable_checkAssignment:
  "stable R \<Longrightarrow> keeps R a b \<Longrightarrow> always R a (checkAssignment v t b)"
  unfolding checkAssignment_def Let_def
  by (intro stable_intros stable_callResolver; assumption)

lemma stable_visit_Assignment_loop:
  "stable R \<Longrightarrow> keeps R a b \<Longrightarrow> always R a (visit_Assignment_loop vs i s b)"
proof (induction vs arbitrary: i s a b)
  case Nil
  then show ?case by (simp add: always_def keeps_def)
next
  case (Cons v vs)
  show ?case unfolding visit_Assignment_loop.simps Let_def
    by (intro stable_intros stable_checkAssignment Cons.IH Cons.prems)
qed

lemma stable_visit_Assignment:
  "stable R \<Longrightarrow> keeps R a b \<Longrightarrow> always R a (visit_Assignment ext addr loc vs v b)"
  unfolding visit_Assignment_def Let_def
  by (intro stable_intros stable_visit_Expression stable_visit_Assignment_loop; assumption)

lemma stable_visit_VariableDeclaration_resolve:
  "stable R \<Longrightarrow> keeps R a b \<Longrightarrow> always R a (visit_VariableDeclaration_resolve r vs b)"
proof (induction vs arbitrary: a b)
  case Nil
  then show ?case by (simp add: always_def keeps_def)
next
  case (Cons v vs)
  show ?case unfolding visit_VariableDeclaration_resolve.simps
    by (intro stable_intros stable_callResolver Cons.IH Cons.prems)
qed

lemma stable_visit_VariableDeclaration_loop:
  "stable R \<Longrightarrow> inserting R \<Longrightarrow> keeps R a b \<Longrightarrow>
   always R a (visit_VariableDeclaration_loop vs i s b)"
proof (induction vs arbitrary: i s a b)
  case Nil
  then show ?case by (simp add: always_def keeps_def)
next
  case (Cons v vs)
  show ?case unfolding visit_VariableDeclaration_loop.simps Let_def
    by (intro stable_intros stable_expectValidType Cons.IH Cons.prems)
qed

lemma stable_visit_VariableDeclaration:
  "stable R \<Longrightarrow> inserting R \<Longrightarrow> keeps R a b \<Longrightarrow>
   always R a (visit_VariableDeclaration ext addr loc vs v b)"
  unfolding visit_VariableDeclaration_def Let_def
  by (intro stable_intros stable_visit_Expression stable_visit_VariableDeclaration_resolve
      stable_visit_VariableDeclaration_loop; assumption)

lemma stable_visit_FunctionDefinition_loop:
  "stable R \<Longrightarrow> inserting R \<Longrightarrow> keeps R a b \<Longrightarrow>
   always R a (visit_FunctionDefinition_loop sc vs b)"
proof (induction vs arbitrary: a b)
  case Nil
  then show ?case by (simp add: always_def keeps_def)
next
  case (Cons v vs)
  show ?case unfolding visit_FunctionDefinition_loop.simps
    by (intro stable_intros stable_expectValidType Cons.IH Cons.prems)
qed

lemma stable_visit_Switch_types:
  "stable R \<Longrightarrow> keeps R a b \<Longrightarrow> always R a (visit_Switch_types t cs s b)"
proof (induction cs arbitrary: s a b)
  case Nil
  then show ?case by (simp add: always_def keeps_def)
next
  case (Cons c cs)
  show ?case unfolding visit_Switch_types.simps
    by (intro stable_intros stable_expectType Cons.IH Cons.prems)
qed

lemma stable_scope: "stable R \<Longrightarrow> keeps R a b \<Longrightarrow> always R a (scope n b)"
  unfolding scope_def by (intro stable_intros; assumption)

lemma stable_visit_Statements:
  assumes "stable R" and "keeps R a b"
    and "\<And>s a b. s \<in> set ss \<Longrightarrow> keeps R a b \<Longrightarrow> always R a (visit_Statement ext s b)"
  shows "always R a (visit_Statements ext ss succ b)"
  using assms
proof (induction ss arbitrary: succ a b)
  case Nil
  then show ?case by (simp add: always_def keeps_def)
next
  case (Cons s ss)
  have tl: "\<And>succ a b. keeps R a b \<Longrightarrow> always R a (visit_Statements ext ss succ b)"
    using Cons.IH [OF Cons.prems(1)] Cons.prems(3) by simp
  have hd: "\<And>a b. keeps R a b \<Longrightarrow> always R a (visit_Statement ext s b)"
    using Cons.prems(3) by simp
  show ?case unfolding visit_Statements.simps
    by (intro stable_intros tl hd Cons.prems(1,2))
qed

lemma stable_visit_Cases:
  assumes "stable R" and "keeps R a b"
    and "\<And>c a b. c \<in> set cs \<Longrightarrow> keeps R a b \<Longrightarrow> always R a (visit_Block ext (case_body c) b)"
  shows "always R a (visit_Cases ext cs seen succ b)"
  using assms
proof (induction cs arbitrary: seen succ a b)
  case Nil
  then show ?case by (simp add: always_def keeps_def)
next
  case (Cons c cs)
  obtain cloc cval body where c: "c = Case cloc cval body" by (cases c) auto
  have tl: "\<And>seen succ a b. keeps R a b \<Longrightarrow> always R a (visit_Cases ext cs seen succ b)"
    using Cons.IH [OF Cons.prems(1)] Cons.prems(3) by simp
  have hd: "\<And>a b. keeps R a b \<Longrightarrow> always R a (visit_Block ext body b)"
    using Cons.prems(3) [of c] c by simp
  show ?case unfolding c visit_Cases.simps Let_def
    by (intro stable_intros stable_visit_Literal stable_expectDeposit tl hd Cons.prems(1,2))
qed

lemma walk_stable_visit:
  assumes st: "stable R" and ins: "inserting R"
    and sc: "\<And>a b s. keeps R a b \<Longrightarrow> keeps R a (b\<lparr>m_currentScope := s\<rparr>)"
    and fl: "\<And>a b l. keeps R a b \<Longrightarrow> keeps R a (b\<lparr>m_currentForLoop := l\<rparr>)"
  shows "\<forall>a b. keeps R a b \<longrightarrow> always R a (visit_Statement ext s b)"
    and "\<forall>a b. keeps R a b \<longrightarrow> always R a (visit_Block ext blk b)"
    and "\<forall>a b. keeps R a b \<longrightarrow> always R a (visit_Block ext (case_body c) b)"
  proof (induction s and blk and c)
    case (ExpressionStatement addr loc e)
    show ?case by (simp add: stable_visit_ExpressionStatement [OF st])
  next
    case (Assignment addr loc vs v)
    show ?case by (simp add: stable_visit_Assignment [OF st])
  next
    case (VariableDeclaration addr loc vs v)
    show ?case by (simp add: stable_visit_VariableDeclaration [OF st ins])
  next
    case (FunctionDefinition addr loc name ps rs body)
    note IH = FunctionDefinition [rule_format]
    show ?case unfolding visit_Statement.simps Let_def
      by (intro allI impI stable_intros stable_scope stable_visit_FunctionDefinition_loop IH st ins; assumption)
  next
    case (If addr loc cond body)
    note IH = If [rule_format]
    show ?case unfolding visit_Statement.simps Let_def
      by (intro allI impI stable_intros stable_expectExpression stable_visit_Expression
          stable_expectType IH st; assumption)
  next
    case (Switch addr loc e cs)
    have cases: "\<And>seen succ a b. keeps R a b \<Longrightarrow> always R a (visit_Cases ext cs seen succ b)"
      using stable_visit_Cases [OF st] Switch by blast
    show ?case unfolding visit_Statement.simps Let_def
      by (intro allI impI stable_intros stable_expectExpression stable_visit_Expression
          stable_visit_Switch_types cases st; assumption)
  next
    case (ForLoop addr loc pre cond post body)
    note IH = ForLoop [rule_format]
    show ?case unfolding visit_Statement.simps Let_def
      by (intro allI impI stable_intros stable_expectExpression stable_visit_Expression
          stable_expectType stable_scope sc fl IH st; assumption)
  next
    case (Break addr loc)
    show ?case unfolding visit_Statement.simps by (intro allI impI stable_intros st; assumption)
  next
    case (Continue addr loc)
    show ?case unfolding visit_Statement.simps by (intro allI impI stable_intros st; assumption)
  next
    case (Leave addr loc)
    show ?case unfolding visit_Statement.simps by (intro allI impI stable_intros st; assumption)
  next
    case (BlockStatement blk)
    then show ?case by simp
  next
    case (Block addr loc ss)
    have stmts: "\<And>succ a b. keeps R a b \<Longrightarrow> always R a (visit_Statements ext ss succ b)"
      using stable_visit_Statements [OF st] Block by blast
    show ?case unfolding visit_Block.simps Let_def
      by (intro allI impI stable_intros stable_scope sc stmts st; assumption)
  next
    case (Case cloc cval body)
    then show ?case by simp
  qed

subsection \<open>Diagnostics and active variables are never taken back\<close>

lemma stable_grows: "stable grows"
  unfolding stable_def grows_def recordStackHeight_def
  by (auto intro: prefix_order.trans)

lemma inserting_grows: "inserting grows"
  unfolding inserting_def grows_def by auto

lemma grows_visit_Expression: "grows a (state_of (visit_Expression ext e a))"
  using stable_visit_Expression [OF stable_grows, of a a ext e]
  by (simp add: always_def keeps_def grows_def)


lemma grows_visit_Block: "grows a (state_of (visit_Block ext blk a))"
  using walk_stable_visit(2) [OF stable_grows inserting_grows, of ext blk]
  by (simp add: always_def keeps_def grows_def)


lemma grows_visit_Cases: "grows a (state_of (visit_Cases ext cs seen succ a))"
  using stable_visit_Cases [OF stable_grows, of a a cs ext seen succ]
    walk_stable_visit(2) [OF stable_grows inserting_grows, of ext]
  by (simp add: always_def keeps_def grows_def)

subsection \<open>Expressions leave the current scope and the current loop alone\<close>

lemma stable_frame: "stable frame"
  unfolding stable_def frame_def recordStackHeight_def by auto

lemma inserting_frame: "inserting frame"
  unfolding inserting_def frame_def by auto


lemma frame_expectExpression: "frame a (state_of (expectExpression ext e a))"
  using stable_expectExpression [OF stable_frame, of a a ext e]
    stable_visit_Expression [OF stable_frame, of _ _ ext e]
  by (simp add: always_def keeps_def frame_def)

subsection \<open>The walk leaves its setting alone\<close>

lemma stable_sameSetting: "stable sameSetting"
  unfolding stable_def sameSetting_def recordStackHeight_def by auto

lemma inserting_sameSetting: "inserting sameSetting"
  unfolding inserting_def sameSetting_def by auto

lemma sameSetting_visit_Statements:
  "sameSetting a (state_of (visit_Statements ext ss succ a))"
proof -
  have "keeps sameSetting a a" by (simp add: keeps_def sameSetting_def)
  moreover have "\<And>a b s. keeps sameSetting a b \<Longrightarrow> keeps sameSetting a (b\<lparr>m_currentScope := s\<rparr>)"
    by (simp add: keeps_def sameSetting_def)
  moreover have "\<And>a b l. keeps sameSetting a b \<Longrightarrow> keeps sameSetting a (b\<lparr>m_currentForLoop := l\<rparr>)"
    by (simp add: keeps_def sameSetting_def)
  ultimately show ?thesis
    using stable_visit_Statements [OF stable_sameSetting, of a a ss ext succ]
      walk_stable_visit(1) [OF stable_sameSetting inserting_sameSetting, of ext]
    by (simp add: always_def keeps_def)
qed

subsection \<open>Rules for what holds on return\<close>












subsection \<open>Facts about single steps\<close>

lemma report_Ok:
  "length (errors (m_errorReporter a)) < maxErrors (m_errorReporter a) \<Longrightarrow>
   report t loc msg a = Ok () (withError (t, loc, msg) a)"
  by (simp add: report_def error_def withError_def Let_def)

lemma state_of_report: "state_of (report t loc msg a) = withError (t, loc, msg) a"
  by (simp add: report_def error_def withError_def Let_def)

lemma visit_Arguments_False:
  "visit_Arguments ext nla floc args False ats a = Ok (s, ats') a' \<Longrightarrow> \<not> s"
proof (induction args arbitrary: s ats' a')
  case Nil
  then show ?case by simp
next
  case (Cons e es)
  then show ?case
    by (auto simp: and_then_eq_Ok split: if_splits list.splits)
qed

subsection \<open>The current scope and the current loop after a statement\<close>

lemma returns_always: "always R a r \<Longrightarrow> returns R a r"
  by (auto simp: returns_def always_def)

lemma returnsD: "returns R a r \<Longrightarrow> r = Ok x s \<Longrightarrow> R a s"
  by (simp add: returns_def)

lemma scope_Ok: "scope n a = Ok sc a' \<Longrightarrow> a' = a \<and> scopes (m_info a) n = Some (Some sc)"
  by (auto simp: scope_def split: option.splits)

lemma frame_trans: "frame a b \<Longrightarrow> frame b c \<Longrightarrow> frame a c"
  by (simp add: frame_def)

lemma keeps_frame_refl: "keeps frame a a"
  by (simp add: keeps_def frame_def)

lemma frame_expectExpression_Ok: "expectExpression ext e a = Ok ok a' \<Longrightarrow> frame a a'"
  using frame_expectExpression [of a ext e] by simp

lemma frame_expectType_Ok: "expectType t u loc a = Ok ok a' \<Longrightarrow> frame a a'"
  using stable_expectType [OF stable_frame keeps_frame_refl, of a t u loc]
  by (simp add: always_def)

lemma frame_expectDeposit_Ok: "expectDeposit d h loc a = Ok ok a' \<Longrightarrow> frame a a'"
  using stable_expectDeposit [OF stable_frame keeps_frame_refl, of a d h loc]
  by (simp add: always_def)

lemma frame_visit_Literal_Ok: "visit_Literal ext l a = Ok ok a' \<Longrightarrow> frame a a'"
  using stable_visit_Literal [OF stable_frame keeps_frame_refl, of a ext l]
  by (simp add: always_def)

lemma frame_declarationError_Ok: "declarationError loc msg a = Ok u a' \<Longrightarrow> frame a a'"
  using stable_declarationError [OF stable_frame keeps_frame_refl, of a loc msg]
  by (simp add: always_def)

lemma frame_visit_Switch_types_Ok: "visit_Switch_types t cs succ a = Ok ok a' \<Longrightarrow> frame a a'"
  using stable_visit_Switch_types [OF stable_frame keeps_frame_refl, of a t cs succ]
  by (simp add: always_def)

lemma frame_visit_FunctionDefinition_loop_Ok:
  "visit_FunctionDefinition_loop sc vs a = Ok u a' \<Longrightarrow> frame a a'"
  using stable_visit_FunctionDefinition_loop [OF stable_frame inserting_frame keeps_frame_refl, of a sc vs]
  by (simp add: always_def)

lemma frame_simple_statements:
  "visit_ExpressionStatement ext addr loc e a = Ok ok a' \<Longrightarrow> frame a a'"
  "visit_Assignment ext addr loc vs v a = Ok ok a' \<Longrightarrow> frame a a'"
  "visit_VariableDeclaration ext addr loc ws v a = Ok ok a' \<Longrightarrow> frame a a'"
  using stable_visit_ExpressionStatement [OF stable_frame keeps_frame_refl, of a ext addr loc e]
    stable_visit_Assignment [OF stable_frame keeps_frame_refl, of a ext addr loc vs v]
    stable_visit_VariableDeclaration [OF stable_frame inserting_frame keeps_frame_refl, of a ext addr loc ws v]
  by (simp_all add: always_def)

text \<open>The steps of a block that returned.\<close>

lemma visit_Block_Ok:
  assumes "visit_Block ext (Block addr loc ss) a = Ok b a'"
  shows "\<exists>sc success a3 a6.
     scopes (m_info a) addr = Some (Some sc) \<and>
     visit_Statements ext ss True (a\<lparr>m_currentScope := Some sc\<rparr>) = Ok success a3 \<and>
     (if success \<and> m_stackHeight a3 - of_nat (numberOfVariables sc) \<noteq> m_stackHeight a
      then and_then
             (declarationError loc
                (unbalancedStackMessage
                   (m_stackHeight a3 - of_nat (numberOfVariables sc) - m_stackHeight a))
                (a3\<lparr>m_stackHeight := m_stackHeight a3 - of_nat (numberOfVariables sc)\<rparr>))
             (\<lambda>u a6. Ok False a6)
      else Ok success (a3\<lparr>m_stackHeight := m_stackHeight a3 - of_nat (numberOfVariables sc)\<rparr>))
       = Ok b a6 \<and>
     a' = (recordStackHeight addr a6)\<lparr>m_currentScope := m_currentScope a\<rparr>"
proof -
  from assms obtain sc where sc: "scopes (m_info a) addr = Some (Some sc)"
    by (auto simp: and_then_eq_Ok scope_def split: option.splits)
  then have s1: "scope addr a = Ok sc a" by (simp add: scope_def)
  let ?a2 = "a\<lparr>m_currentScope := Some sc\<rparr>"
  from assms s1 obtain success a3 where
    ss: "visit_Statements ext ss True ?a2 = Ok success a3"
    by (auto simp: and_then_eq_Ok Let_def)
  have "sameSetting ?a2 a3"
    using sameSetting_visit_Statements [of ?a2 ext ss True] ss by simp
  then have "scopes (m_info a3) addr = Some (Some sc)"
    using sc by (simp add: sameSetting_def)
  then have s2: "scope addr a3 = Ok sc a3" by (simp add: scope_def)
  show ?thesis using assms s1 ss s2 sc
    by (auto simp: Let_def and_then_eq_Ok split: if_splits)
qed

lemma frame_visit_Statements:
  assumes "\<And>s a ok a'. s \<in> set ss \<Longrightarrow> visit_Statement ext s a = Ok ok a' \<Longrightarrow> frame a a'"
    and "visit_Statements ext ss succ a = Ok ok a'"
  shows "frame a a'"
  using assms
proof (induction ss arbitrary: succ a)
  case Nil
  then show ?case by (simp add: frame_def)
next
  case (Cons s ss)
  from Cons.prems(2) obtain ok1 a1 where
    hd: "visit_Statement ext s a = Ok ok1 a1" and
    tl: "visit_Statements ext ss (succ \<and> ok1) a1 = Ok ok a'"
    by (auto simp: and_then_eq_Ok)
  have "frame a a1" using Cons.prems(1) [of s a ok1 a1] hd by simp
  moreover have "frame a1 a'"
  proof (rule Cons.IH [OF _ tl])
    fix s' b ok' b' assume "s' \<in> set ss" "visit_Statement ext s' b = Ok ok' b'"
    then show "frame b b'" using Cons.prems(1) [of s' b ok' b'] by simp
  qed
  ultimately show ?case by (rule frame_trans)
qed

lemma frame_visit_Block:
  assumes "\<And>s a ok a'. s \<in> set ss \<Longrightarrow> visit_Statement ext s a = Ok ok a' \<Longrightarrow> frame a a'"
    and "visit_Block ext (Block addr loc ss) a = Ok ok a'"
  shows "frame a a'"
proof -
  from visit_Block_Ok [OF assms(2)] obtain sc success a3 a6 where
    ss: "visit_Statements ext ss True (a\<lparr>m_currentScope := Some sc\<rparr>) = Ok success a3" and
    fin: "(if success \<and> m_stackHeight a3 - of_nat (numberOfVariables sc) \<noteq> m_stackHeight a
      then and_then
             (declarationError loc
                (unbalancedStackMessage
                   (m_stackHeight a3 - of_nat (numberOfVariables sc) - m_stackHeight a))
                (a3\<lparr>m_stackHeight := m_stackHeight a3 - of_nat (numberOfVariables sc)\<rparr>))
             (\<lambda>u a6. Ok False a6)
      else Ok success (a3\<lparr>m_stackHeight := m_stackHeight a3 - of_nat (numberOfVariables sc)\<rparr>))
       = Ok ok a6" and
    a': "a' = (recordStackHeight addr a6)\<lparr>m_currentScope := m_currentScope a\<rparr>"
    by blast
  have f1: "frame (a\<lparr>m_currentScope := Some sc\<rparr>) a3"
    using frame_visit_Statements [OF assms(1) ss] by simp
  have f2: "m_currentForLoop a6 = m_currentForLoop a3"
    using fin by (auto simp: and_then_eq_Ok frame_def split: if_splits dest!: frame_declarationError_Ok)
  show ?thesis using f1 f2 a' by (simp add: frame_def recordStackHeight_def)
qed

lemma returns_Ok: "keeps R a b \<Longrightarrow> returns R a (Ok x b)"
  by (simp add: returns_def keeps_def)

lemma returns_Exc: "returns R a (Exc e b)"
  by (simp add: returns_def)

lemma returns_if:
  "(c \<Longrightarrow> returns R a x) \<Longrightarrow> (\<not> c \<Longrightarrow> returns R a y) \<Longrightarrow> returns R a (if c then x else y)"
  by simp

lemma returns_option:
  "(v = None \<Longrightarrow> returns R a x) \<Longrightarrow> (\<And>w. v = Some w \<Longrightarrow> returns R a (f w)) \<Longrightarrow>
   returns R a (case v of None \<Rightarrow> x | Some w \<Rightarrow> f w)"
  by (cases v) auto

lemma returns_list:
  "(v = [] \<Longrightarrow> returns R a x) \<Longrightarrow> (\<And>w ws. v = w # ws \<Longrightarrow> returns R a (f w ws)) \<Longrightarrow>
   returns R a (case v of [] \<Rightarrow> x | w # ws \<Rightarrow> f w ws)"
  by (cases v) auto

lemma returns_prod_fun:
  "(\<And>x y. v = (x, y) \<Longrightarrow> returns R a (f x y s)) \<Longrightarrow> returns R a ((case v of (x, y) \<Rightarrow> f x y) s)"
  by (cases v) auto

lemma returns_sum:
  "(\<And>x. v = Inl x \<Longrightarrow> returns R a (f x)) \<Longrightarrow> (\<And>y. v = Inr y \<Longrightarrow> returns R a (g y)) \<Longrightarrow>
   returns R a (case v of Inl x \<Rightarrow> f x | Inr y \<Rightarrow> g y)"
  by (cases v) auto

lemma returns_and_then:
  "stable R \<Longrightarrow> returns R a r \<Longrightarrow> (\<And>x a1. r = Ok x a1 \<Longrightarrow> returns R a1 (f x a1)) \<Longrightarrow>
   returns R a (and_then r f)"
  by (cases r) (auto simp: returns_def intro: stable_trans)

lemma returns_start:
  "stable R \<Longrightarrow> keeps R a b \<Longrightarrow> (\<And>x s. r = Ok x s \<Longrightarrow> R b s) \<Longrightarrow> returns R a r"
  by (auto simp: returns_def keeps_def intro: stable_trans)

lemmas returns_intros =
  returns_and_then returns_if returns_option returns_list returns_prod_fun returns_sum
  returns_Ok returns_Exc stable_refl stable_height stable_type stable_record stable_active

lemma returns_frame_visit_Statements:
  assumes "keeps frame a b"
    and "\<And>s a b. s \<in> set ss \<Longrightarrow> keeps frame a b \<Longrightarrow> returns frame a (visit_Statement ext s b)"
  shows "returns frame a (visit_Statements ext ss succ b)"
  using assms
proof (induction ss arbitrary: succ a b)
  case Nil
  then show ?case by (simp add: returns_def keeps_def)
next
  case (Cons s ss)
  have tl: "\<And>succ a b. keeps frame a b \<Longrightarrow> returns frame a (visit_Statements ext ss succ b)"
    using Cons.IH Cons.prems(2) by simp
  have hd: "\<And>a b. keeps frame a b \<Longrightarrow> returns frame a (visit_Statement ext s b)"
    using Cons.prems(2) by simp
  show ?case unfolding visit_Statements.simps
    by (intro returns_intros tl hd Cons.prems(1) stable_frame)
qed

lemma returns_frame_visit_Cases:
  assumes "keeps frame a b"
    and "\<And>c a b. c \<in> set cs \<Longrightarrow> keeps frame a b \<Longrightarrow> returns frame a (visit_Block ext (case_body c) b)"
  shows "returns frame a (visit_Cases ext cs seen succ b)"
  using assms
proof (induction cs arbitrary: seen succ a b)
  case Nil
  then show ?case by (simp add: returns_def keeps_def)
next
  case (Cons c cs)
  obtain cloc cval body where c: "c = Case cloc cval body" by (cases c) auto
  have tl: "\<And>seen succ a b. keeps frame a b \<Longrightarrow> returns frame a (visit_Cases ext cs seen succ b)"
    using Cons.IH Cons.prems(2) by simp
  have hd: "\<And>a b. keeps frame a b \<Longrightarrow> returns frame a (visit_Block ext body b)"
    using Cons.prems(2) [of c] c by simp
  show ?case unfolding c visit_Cases.simps Let_def
    by (intro returns_intros tl hd Cons.prems(1) stable_frame
        returns_always [OF stable_visit_Literal] returns_always [OF stable_expectDeposit]
        returns_always [OF stable_declarationError])
qed

lemma returns_frame_visit_Block:
  assumes "keeps frame a b"
    and "\<And>s a b. s \<in> set ss \<Longrightarrow> keeps frame a b \<Longrightarrow> returns frame a (visit_Statement ext s b)"
  shows "returns frame a (visit_Block ext (Block addr loc ss) b)"
proof (rule returns_start [OF stable_frame assms(1)])
  fix ok a' assume run: "visit_Block ext (Block addr loc ss) b = Ok ok a'"
  from visit_Block_Ok [OF run] obtain sc success a3 a6 where
    ss: "visit_Statements ext ss True (b\<lparr>m_currentScope := Some sc\<rparr>) = Ok success a3" and
    fin: "(if success \<and> m_stackHeight a3 - of_nat (numberOfVariables sc) \<noteq> m_stackHeight b
      then and_then
             (declarationError loc
                (unbalancedStackMessage
                   (m_stackHeight a3 - of_nat (numberOfVariables sc) - m_stackHeight b))
                (a3\<lparr>m_stackHeight := m_stackHeight a3 - of_nat (numberOfVariables sc)\<rparr>))
             (\<lambda>u a6. Ok False a6)
      else Ok success (a3\<lparr>m_stackHeight := m_stackHeight a3 - of_nat (numberOfVariables sc)\<rparr>))
       = Ok ok a6" and
    a': "a' = (recordStackHeight addr a6)\<lparr>m_currentScope := m_currentScope b\<rparr>"
    by blast
  have "returns frame (b\<lparr>m_currentScope := Some sc\<rparr>)
          (visit_Statements ext ss True (b\<lparr>m_currentScope := Some sc\<rparr>))"
    by (rule returns_frame_visit_Statements [OF keeps_frame_refl assms(2)])
  then have f1: "frame (b\<lparr>m_currentScope := Some sc\<rparr>) a3"
    using ss by (simp add: returns_def)
  have f2: "m_currentForLoop a6 = m_currentForLoop a3"
    using fin by (auto simp: and_then_eq_Ok frame_def split: if_splits dest!: frame_declarationError_Ok)
  show "frame b a'" using f1 f2 a' by (simp add: frame_def recordStackHeight_def)
qed

lemma and_then_OkE:
  "and_then r f = Ok y b \<Longrightarrow> (\<And>x a. r = Ok x a \<Longrightarrow> f x a = Ok y b \<Longrightarrow> P) \<Longrightarrow> P"
  by (cases r) auto

text \<open>The steps of a for loop that returned.\<close>

lemma visit_ForLoop_Ok:
  assumes "visit_Statement ext (ForLoop addr loc pre (Some c) post body) a = Ok b a'"
  shows "\<exists>ok1 a1 sc ok4 a4 succ5 a5 ok7 a7 ok8 a8.
    visit_Block ext pre a = Ok ok1 a1 \<and>
    scopes (m_info a1) (block_addr pre) = Some (Some sc) \<and>
    expectExpression ext c
      (a1\<lparr>m_stackHeight := m_stackHeight a1 + of_nat (numberOfVariables sc),
          m_currentScope := Some sc\<rparr>) = Ok ok4 a4 \<and>
    (if \<not> ok4 then Ok False a4
     else (case m_typeOfCurrentExpression a4 of
             [] \<Rightarrow> Exc OutOfRange a4
           | t # ts \<Rightarrow>
               and_then (expectType (boolType (m_dialect a4)) t (locationOf c) a4)
                 (\<lambda>ok a5. Ok (ok1 \<and> ok) a5))) = Ok succ5 a5 \<and>
    visit_Block ext body (a5\<lparr>m_stackHeight := m_stackHeight a5 - 1, m_currentForLoop := Some addr\<rparr>) =
      Ok ok7 a7 \<and>
    visit_Block ext post a7 = Ok ok8 a8 \<and>
    b = (succ5 \<and> ok7 \<and> ok8) \<and>
    a' = (recordStackHeight addr (a8\<lparr>m_stackHeight := m_stackHeight a\<rparr>))
           \<lparr>m_currentScope := m_currentScope a, m_currentForLoop := m_currentForLoop a5\<rparr>"
  using assms
  apply (simp add: Let_def split del: if_split)
  apply (elim and_then_OkE)
  apply (drule scope_Ok)
  apply (clarsimp split del: if_split)
  done

lemma frame_condition_Ok:
  assumes "(if \<not> ok4 then Ok False a4
     else (case m_typeOfCurrentExpression a4 of
             [] \<Rightarrow> Exc OutOfRange a4
           | t # ts \<Rightarrow>
               and_then (expectType bt t loc a4) (\<lambda>ok a5. Ok (ok1 \<and> ok) a5))) = Ok succ5 a5"
  shows "frame a4 a5"
  using assms
  by (auto simp: and_then_eq_Ok frame_def split: if_splits list.splits dest!: frame_expectType_Ok)

lemma returns_frame_visit:
  shows "\<forall>a b. keeps frame a b \<longrightarrow> returns frame a (visit_Statement ext s b)"
    and "\<forall>a b. keeps frame a b \<longrightarrow> returns frame a (visit_Block ext blk b)"
    and "\<forall>a b. keeps frame a b \<longrightarrow> returns frame a (visit_Block ext (case_body c) b)"
proof (induction s and blk and c)
  case (ExpressionStatement addr loc e)
  show ?case by (simp add: returns_always [OF stable_visit_ExpressionStatement [OF stable_frame]])
next
  case (Assignment addr loc vs v)
  show ?case by (simp add: returns_always [OF stable_visit_Assignment [OF stable_frame]])
next
  case (VariableDeclaration addr loc vs v)
  show ?case by (simp add: returns_always [OF stable_visit_VariableDeclaration [OF stable_frame inserting_frame]])
next
  case (FunctionDefinition addr loc name ps rs body)
  note IH = FunctionDefinition [rule_format]
  show ?case unfolding visit_Statement.simps Let_def
    by (intro allI impI returns_intros IH stable_frame inserting_frame
        returns_always [OF stable_scope] returns_always [OF stable_visit_FunctionDefinition_loop];
        assumption)
next
  case (If addr loc cond body)
  note IH = If [rule_format]
  show ?case unfolding visit_Statement.simps Let_def
    by (intro allI impI returns_intros IH stable_frame
        returns_always [OF stable_expectExpression] returns_always [OF stable_expectType]
        stable_visit_Expression; assumption)
next
  case (Switch addr loc e cs)
  have cases: "\<And>seen succ a b. keeps frame a b \<Longrightarrow> returns frame a (visit_Cases ext cs seen succ b)"
    using returns_frame_visit_Cases Switch by blast
  show ?case unfolding visit_Statement.simps Let_def
    by (intro allI impI returns_intros cases stable_frame
        returns_always [OF stable_expectExpression] returns_always [OF stable_visit_Switch_types]
        stable_visit_Expression; assumption)
next
  case (ForLoop addr loc pre cond post body)
  show ?case
  proof (intro allI impI)
    fix a b assume ab: "keeps frame a b"
    show "returns frame a (visit_Statement ext (ForLoop addr loc pre cond post body) b)"
    proof (cases cond)
      case None
      then show ?thesis by (simp add: returns_def)
    next
      case (Some c)
      show ?thesis unfolding Some
      proof (rule returns_start [OF stable_frame ab])
        fix ok a' assume run: "visit_Statement ext (ForLoop addr loc pre (Some c) post body) b = Ok ok a'"
        from visit_ForLoop_Ok [OF run] obtain ok1 a1 sc ok4 a4 succ5 a5 ok7 a7 ok8 a8 where
          pre: "visit_Block ext pre b = Ok ok1 a1" and
          cond: "expectExpression ext c
            (a1\<lparr>m_stackHeight := m_stackHeight a1 + of_nat (numberOfVariables sc),
                m_currentScope := Some sc\<rparr>) = Ok ok4 a4" and
          check: "(if \<not> ok4 then Ok False a4
           else (case m_typeOfCurrentExpression a4 of
             [] \<Rightarrow> Exc OutOfRange a4
           | t # ts \<Rightarrow>
               and_then (expectType (boolType (m_dialect a4)) t (locationOf c) a4)
                 (\<lambda>ok a5. Ok (ok1 \<and> ok) a5))) = Ok succ5 a5" and
          fin: "a' = (recordStackHeight addr (a8\<lparr>m_stackHeight := m_stackHeight b\<rparr>))
           \<lparr>m_currentScope := m_currentScope b, m_currentForLoop := m_currentForLoop a5\<rparr>"
          by blast
        have a': "m_currentScope a' = m_currentScope b \<and> m_currentForLoop a' = m_currentForLoop a5"
          using fin by simp
        have "frame b a1"
          using ForLoop(1) [rule_format, OF keeps_frame_refl, of b] pre by (simp add: returns_def)
        moreover have "m_currentForLoop a4 = m_currentForLoop a1"
          using frame_expectExpression_Ok [OF cond] by (simp add: frame_def)
        moreover have "frame a4 a5" by (rule frame_condition_Ok [OF check])
        ultimately show "frame b a'" using a' by (simp add: frame_def)
      qed
    qed
  qed
next
  case (Break addr loc)
  show ?case unfolding visit_Statement.simps
    by (intro allI impI returns_intros stable_frame; assumption)
next
  case (Continue addr loc)
  show ?case unfolding visit_Statement.simps
    by (intro allI impI returns_intros stable_frame; assumption)
next
  case (Leave addr loc)
  show ?case unfolding visit_Statement.simps
    by (intro allI impI returns_intros stable_frame; assumption)
next
  case (BlockStatement blk)
  then show ?case by simp
next
  case (Block addr loc ss)
  show ?case using returns_frame_visit_Block Block by blast
next
  case (Case cloc cval body)
  then show ?case by simp
qed



lemma frame_visit_Statements_Ok: "visit_Statements ext ss succ a = Ok ok a' \<Longrightarrow> frame a a'"
  using returns_frame_visit_Statements [OF keeps_frame_refl, of ss ext a succ]
    returns_frame_visit(1) [of ext]
  by (auto simp: returns_def)



lemma visit_Literal_result: "visit_Literal ext l a = Ok ok a' \<Longrightarrow> ok = fitsInWord ext l"
  unfolding visit_Literal_def Let_def fitsInWord_def
  by (auto simp: and_then_eq_Ok split: if_splits)

lemma grows_errors: "grows a b \<Longrightarrow> e \<in> set (errors (m_errorReporter a)) \<Longrightarrow> e \<in> set (errors (m_errorReporter b))"
  using set_mono_prefix by (auto simp: grows_def)

lemma declarationError_recorded:
  "declarationError loc msg a = Ok u a' \<Longrightarrow> (DeclarationError, loc, msg) \<in> set (errors (m_errorReporter a'))"
  by (auto simp: declarationError_def report_def error_def Let_def split: if_splits)


subsection \<open>Rules that keep the state at the entry of a handler\<close>



subsection \<open>More on what the walk leaves alone\<close>

lemma keeps_grows_refl: "keeps grows a a"
  by (simp add: keeps_def grows_def)

lemma keeps_sameSetting_refl: "keeps sameSetting a a"
  by (simp add: keeps_def sameSetting_def)

lemma sameSetting_scope: "keeps sameSetting a b \<Longrightarrow> keeps sameSetting a (b\<lparr>m_currentScope := s\<rparr>)"
  by (simp add: keeps_def sameSetting_def)

lemma sameSetting_loop: "keeps sameSetting a b \<Longrightarrow> keeps sameSetting a (b\<lparr>m_currentForLoop := l\<rparr>)"
  by (simp add: keeps_def sameSetting_def)

lemma sameSetting_visit_Block: "sameSetting a (state_of (visit_Block ext blk a))"
  using walk_stable_visit(2) [OF stable_sameSetting inserting_sameSetting sameSetting_scope sameSetting_loop,
      of ext blk] keeps_sameSetting_refl [of a]
  by (simp add: always_def)


lemma sameSetting_expectExpression: "sameSetting a (state_of (expectExpression ext e a))"
  using stable_expectExpression [OF stable_sameSetting keeps_sameSetting_refl, of ext e a]
    stable_visit_Expression [OF stable_sameSetting, of _ _ ext e]
  by (simp add: always_def)


lemma sameSetting_visit_Switch_types: "sameSetting a (state_of (visit_Switch_types t cs succ a))"
  using stable_visit_Switch_types [OF stable_sameSetting keeps_sameSetting_refl, of a t cs succ]
  by (simp add: always_def)



lemma sameSetting_trans: "sameSetting a b \<Longrightarrow> sameSetting b c \<Longrightarrow> sameSetting a c"
  by (simp add: sameSetting_def)

lemma grows_trans: "grows a b \<Longrightarrow> grows b c \<Longrightarrow> grows a c"
  by (auto simp: grows_def intro: prefix_order.trans)


lemma grows_expectExpression: "grows a (state_of (expectExpression ext e a))"
  using stable_expectExpression [OF stable_grows keeps_grows_refl, of ext e a]
    stable_visit_Expression [OF stable_grows, of _ _ ext e]
  by (simp add: always_def)

lemma grows_visit_Switch_types: "grows a (state_of (visit_Switch_types t cs succ a))"
  using stable_visit_Switch_types [OF stable_grows keeps_grows_refl, of a t cs succ]
  by (simp add: always_def)



subsection \<open>The step of the switch for the value of a case\<close>

lemma stable_case_value:
  assumes "stable R" and "keeps R a b"
  shows "always R a
     (case cval of
          None \<Rightarrow> Ok (seen, succ) b
        | Some l \<Rightarrow>
            (let initialStackHeight = m_stackHeight b in
             and_then (visit_Literal ext l b) (\<lambda>isCaseValueValid a1.
             let success = (succ \<and> isCaseValueValid) in
             and_then (expectDeposit 1 initialStackHeight (lit_location l) a1) (\<lambda>deposited a2.
             let a3 = a2\<lparr>m_stackHeight := m_stackHeight a2 - 1\<rparr> in
             if \<not> (isCaseValueValid \<or> hasErrors (m_errorReporter a3)) then Exc AssertionFailed a3
             else if isCaseValueValid then
               (case valueOfLiteral ext l of
                  Inl e \<Rightarrow> Exc e a3
                | Inr v \<Rightarrow>
                    if v \<in> seen then
                      and_then (declarationError cloc ''Duplicate case defined.'' a3)
                        (\<lambda>u a4. Ok (seen, False) a4)
                    else Ok (insert v seen, success) a3)
             else Ok (seen, success) a3))))"
  unfolding Let_def
  by (intro stable_intros stable_visit_Literal stable_expectDeposit assms)

lemma case_value_flag:
  assumes "(case cval of
          None \<Rightarrow> Ok (seen, succ) a
        | Some l \<Rightarrow>
            (let initialStackHeight = m_stackHeight a in
             and_then (visit_Literal ext l a) (\<lambda>isCaseValueValid a1.
             let success = (succ \<and> isCaseValueValid) in
             and_then (expectDeposit 1 initialStackHeight (lit_location l) a1) (\<lambda>deposited a2.
             let a3 = a2\<lparr>m_stackHeight := m_stackHeight a2 - 1\<rparr> in
             if \<not> (isCaseValueValid \<or> hasErrors (m_errorReporter a3)) then Exc AssertionFailed a3
             else if isCaseValueValid then
               (case valueOfLiteral ext l of
                  Inl e \<Rightarrow> Exc e a3
                | Inr v \<Rightarrow>
                    if v \<in> seen then
                      and_then (declarationError cloc ''Duplicate case defined.'' a3)
                        (\<lambda>u a4. Ok (seen, False) a4)
                    else Ok (insert v seen, success) a3)
             else Ok (seen, success) a3)))) = Ok (seen1, succ1) a5"
  shows "succ1 \<longrightarrow> succ"
proof (cases cval)
  case None
  then show ?thesis using assms by simp
next
  case (Some l)
  then show ?thesis using assms
    by (auto simp: Let_def and_then_eq_Ok split: if_splits sum.splits)
qed

lemma visit_Cases_ConsE:
  assumes "visit_Cases ext (Case cloc cval body # rest) seen succ a = Ok b a'"
  obtains seen1 succ1 a5 ok1 a6 where
    "(case cval of
          None \<Rightarrow> Ok (seen, succ) a
        | Some l \<Rightarrow>
            (let initialStackHeight = m_stackHeight a in
             and_then (visit_Literal ext l a) (\<lambda>isCaseValueValid a1.
             let success = (succ \<and> isCaseValueValid) in
             and_then (expectDeposit 1 initialStackHeight (lit_location l) a1) (\<lambda>deposited a2.
             let a3 = a2\<lparr>m_stackHeight := m_stackHeight a2 - 1\<rparr> in
             if \<not> (isCaseValueValid \<or> hasErrors (m_errorReporter a3)) then Exc AssertionFailed a3
             else if isCaseValueValid then
               (case valueOfLiteral ext l of
                  Inl e \<Rightarrow> Exc e a3
                | Inr v \<Rightarrow>
                    if v \<in> seen then
                      and_then (declarationError cloc ''Duplicate case defined.'' a3)
                        (\<lambda>u a4. Ok (seen, False) a4)
                    else Ok (insert v seen, success) a3)
             else Ok (seen, success) a3)))) = Ok (seen1, succ1) a5"
    and "sameSetting a a5" and "grows a a5" and "frame a a5"
    and "visit_Block ext body a5 = Ok ok1 a6"
    and "visit_Cases ext rest seen1 (succ1 \<and> ok1) a6 = Ok b a'"
proof -
  from assms obtain r a5 where
    val: "(case cval of
          None \<Rightarrow> Ok (seen, succ) a
        | Some l \<Rightarrow>
            (let initialStackHeight = m_stackHeight a in
             and_then (visit_Literal ext l a) (\<lambda>isCaseValueValid a1.
             let success = (succ \<and> isCaseValueValid) in
             and_then (expectDeposit 1 initialStackHeight (lit_location l) a1) (\<lambda>deposited a2.
             let a3 = a2\<lparr>m_stackHeight := m_stackHeight a2 - 1\<rparr> in
             if \<not> (isCaseValueValid \<or> hasErrors (m_errorReporter a3)) then Exc AssertionFailed a3
             else if isCaseValueValid then
               (case valueOfLiteral ext l of
                  Inl e \<Rightarrow> Exc e a3
                | Inr v \<Rightarrow>
                    if v \<in> seen then
                      and_then (declarationError cloc ''Duplicate case defined.'' a3)
                        (\<lambda>u a4. Ok (seen, False) a4)
                    else Ok (insert v seen, success) a3)
             else Ok (seen, success) a3)))) = Ok r a5" and
    tl0: "(case r of (cases, success) \<Rightarrow> \<lambda>a5.
           and_then (visit_Block ext body a5) (\<lambda>ok a6.
           visit_Cases ext rest cases (success \<and> ok) a6)) a5 = Ok b a'"
    unfolding visit_Cases.simps by (elim and_then_OkE) blast
  obtain seen1 succ1 where r: "r = (seen1, succ1)" by (cases r) auto
  from tl0 r obtain ok1 a6 where
    body: "visit_Block ext body a5 = Ok ok1 a6" and
    tl: "visit_Cases ext rest seen1 (succ1 \<and> ok1) a6 = Ok b a'"
    by (auto simp: and_then_eq_Ok)
  have "sameSetting a a5"
    using stable_case_value [OF stable_sameSetting keeps_sameSetting_refl, where a = a and cval = cval
        and seen = seen and succ = succ and ext = ext and cloc = cloc]
    unfolding always_def val state_of.simps .
  moreover have "grows a a5"
    using stable_case_value [OF stable_grows keeps_grows_refl, where a = a and cval = cval
        and seen = seen and succ = succ and ext = ext and cloc = cloc]
    unfolding always_def val state_of.simps .
  moreover have "frame a a5"
    using stable_case_value [OF stable_frame keeps_frame_refl, where a = a and cval = cval
        and seen = seen and succ = succ and ext = ext and cloc = cloc]
    unfolding always_def val state_of.simps .
  ultimately show ?thesis using that val [unfolded r] body tl by blast
qed

lemma visit_Cases_False: "visit_Cases ext cs seen False a = Ok b a' \<Longrightarrow> \<not> b"
proof (induction cs arbitrary: seen a)
  case Nil
  then show ?case by simp
next
  case (Cons c cs)
  obtain cloc cval body where c: "c = Case cloc cval body" by (cases c) auto
  from Cons.prems [unfolded c] obtain seen1 succ1 a5 ok1 a6 where
    val: "(case cval of
          None \<Rightarrow> Ok (seen, False) a
        | Some l \<Rightarrow>
            (let initialStackHeight = m_stackHeight a in
             and_then (visit_Literal ext l a) (\<lambda>isCaseValueValid a1.
             let success = (False \<and> isCaseValueValid) in
             and_then (expectDeposit 1 initialStackHeight (lit_location l) a1) (\<lambda>deposited a2.
             let a3 = a2\<lparr>m_stackHeight := m_stackHeight a2 - 1\<rparr> in
             if \<not> (isCaseValueValid \<or> hasErrors (m_errorReporter a3)) then Exc AssertionFailed a3
             else if isCaseValueValid then
               (case valueOfLiteral ext l of
                  Inl e \<Rightarrow> Exc e a3
                | Inr v \<Rightarrow>
                    if v \<in> seen then
                      and_then (declarationError cloc ''Duplicate case defined.'' a3)
                        (\<lambda>u a4. Ok (seen, False) a4)
                    else Ok (insert v seen, success) a3)
             else Ok (seen, success) a3)))) = Ok (seen1, succ1) a5" and
    tl: "visit_Cases ext cs seen1 (succ1 \<and> ok1) a6 = Ok b a'"
    by (rule visit_Cases_ConsE)
  have "\<not> succ1" using case_value_flag [OF val] by simp
  then show ?case using tl Cons.IH by simp
qed


subsection \<open>Evaluation of the examples\<close>

lemma and_then_assoc:
  "and_then (and_then r f) g = and_then r (\<lambda>x s. and_then (f x s) g)"
  by (cases r) simp_all

lemmas eval_simps =
  visit_ExpressionStatement_def visit_Identifier_def visit_Literal_def visit_Assignment_def
  visit_VariableDeclaration_def checkAssignment_def callResolver_def
  expectValidType_def expectType_def expectDeposit_def expectExpression.simps
  report_def error_def typeError_def declarationError_def hasErrors_def
  recordStackHeight_def scope_def numberOfVariables_def insideFunction_def
  warnOnInstructions_def warnOnInstructions_name_def jumpInstructionsMessage_def
  unbalancedStackMessage_def
  fresh_def ext0_def dialect0_def evm0_def decimal_def withError_def Let_def
  to_string_def to_string_nat.simps to_lower_copy_def word_sle_eq word_sless_alt
  fillWith_def blockOfSeven_def oneEmptyScope_def oneVariableScope_def
  analyze_def runScopeFiller_def seven_def outerScope_def inOuterScope_def
  loopScope_def forScopes_def forLoopExample_def

section \<open>The stack height recorded for a node\<close>

lemma recorded_simps [simp]:
  "recorded addr (recordStackHeight addr a)"
  "recorded addr (a\<lparr>m_typeOfCurrentExpression := ts\<rparr>) = recorded addr a"
  "recorded addr (a\<lparr>m_currentScope := sc\<rparr>) = recorded addr a"
  "recorded addr (a\<lparr>m_currentForLoop := fl\<rparr>) = recorded addr a"
  by (simp_all add: recorded_def recordStackHeight_def)












section \<open>The types of the arguments of a call\<close>

text \<open>
  C2. The claim is that the i-th parameter type is compared with the type of the i-th
  argument. The code walks the arguments from the last to the first and appends each
  type to \<open>argTypes\<close>, so \<open>argTypes[i]\<close> is the type of the i-th argument from the end,
  and it is this type that is compared with the i-th parameter type, at the location of
  the i-th argument. The call \<open>f(true, 1)\<close> of \<open>f(a: bool, b: u256)\<close> is well typed,
  and the code rejects it with two type errors.
\<close>

theorem function_call_types_reversed:
  "returned (visit_Expression ext0 typedCall functionScopeState) = Some False \<and>
   errors (m_errorReporter (state_of (visit_Expression ext0 typedCall functionScopeState))) =
     [(TypeError, (2, 2),
       ''Expected a value of type '' @ [CHR 0x22] @ ''bool'' @ [CHR 0x22] @ '' but got '' @
       [CHR 0x22] @ ''u256''),
      (TypeError, (3, 3),
       ''Expected a value of type '' @ [CHR 0x22] @ ''u256'' @ [CHR 0x22] @ '' but got '' @
       [CHR 0x22] @ ''bool'')]"
  by (simp add: typedCall_def functionScopeState_def eval_simps)

section \<open>The verdict of the analysis\<close>

text \<open>
  C3. Whenever \<open>analyze\<close> returns, it returns true exactly when the reporter holds no
  diagnostic: true only without errors, and false (a rejected program, the fatal abort
  of the reporter included) only with at least one. The scope filler is a parameter,
  and the statement needs of it what the claim says of the whole: when it rejects the
  block it has reported.
\<close>

theorem analyze_verdict:
  assumes "analyze ext filler block a = Ok b a'"
    and "\<And>info r. filler (m_info a) (m_errorReporter a) block = Ok False (info, r) \<Longrightarrow> errors r \<noteq> []"
  shows "b = (errors (m_errorReporter a') = [])"
proof (cases "filler (m_info a) (m_errorReporter a) block")
  case (Exc e s)
  obtain info r where s: "s = (info, r)" by (cases s) auto
  show ?thesis using assms(1) Exc s
    by (auto simp: analyze_def runScopeFiller_def hasErrors_def split: if_splits)
next
  case (Ok filled s)
  obtain info r where s: "s = (info, r)" by (cases s) auto
  show ?thesis
  proof (cases filled)
    case False
    then show ?thesis using assms Ok s
      by (auto simp: analyze_def runScopeFiller_def hasErrors_def)
  next
    case True
    show ?thesis
    proof (cases "visit_Block ext block (a\<lparr>m_info := info, m_errorReporter := r\<rparr>)")
      case (Ok success a2)
      then show ?thesis using assms(1) \<open>filler _ _ _ = Ok filled s\<close> s True
        by (auto simp: analyze_def runScopeFiller_def hasErrors_def split: if_splits)
    next
      case (Exc e a2)
      then show ?thesis using assms(1) \<open>filler _ _ _ = Ok filled s\<close> s True
        by (auto simp: analyze_def runScopeFiller_def hasErrors_def split: if_splits)
    qed
  qed
qed

text \<open>
  The block \<open>{ 7 }\<close> with a reporter without room: the first diagnostic is the fatal
  abort, and the analysis returns false with that diagnostic.
\<close>

theorem analyze_verdict_witness:
  "returned (analyze ext0 (fillWith oneEmptyScope) blockOfSeven (fresh (\<lambda>n. None) 0)) = Some False \<and>
   map fst (errors (m_errorReporter (state_of
     (analyze ext0 (fillWith oneEmptyScope) blockOfSeven (fresh (\<lambda>n. None) 0))))) = [TypeError] \<and>
   thrown (visit_Block ext0 blockOfSeven (fresh oneEmptyScope 0)) = Some FatalError"
  using analyze_verdict [where ext = ext0 and filler = "fillWith oneEmptyScope"
      and block = blockOfSeven and a = "fresh (\<lambda>n. None) 0" and b = False
      and a' = "state_of (analyze ext0 (fillWith oneEmptyScope) blockOfSeven (fresh (\<lambda>n. None) 0))"]
  by (simp add: seven_def eval_simps)


section \<open>The active variables\<close>









subsection \<open>Only declared variables become active\<close>














subsection \<open>An accepted statement has made its declared variables active\<close>








section \<open>The stack balance of a block\<close>

text \<open>
  C5, as the code has it. After the statements of a block the analyzer subtracts the
  number of variables of the block's scope from the stack height, and this is the stack
  height at the exit. The block is accepted exactly when all its statements succeeded
  and the result equals the height at the entry, so an accepted block leaves the stack
  height as it found it. The declaration error about the unbalanced stack is recorded
  exactly when all statements succeeded and the result differs from the height at the
  entry; when a statement failed the block returns false and records nothing of its own,
  whatever the difference is.
\<close>

theorem block_stack_balance:
  assumes "visit_Block ext (Block addr loc ss) a = Ok b a'"
  shows "\<exists>sc success a3.
     scopes (m_info a) addr = Some (Some sc) \<and>
     visit_Statements ext ss True (a\<lparr>m_currentScope := Some sc\<rparr>) = Ok success a3 \<and>
     (let height = m_stackHeight a3 - of_nat (numberOfVariables sc)
      in m_stackHeight a' = height \<and>
         b = (success \<and> height = m_stackHeight a) \<and>
         errors (m_errorReporter a') =
           errors (m_errorReporter a3) @
           (if success \<and> height \<noteq> m_stackHeight a
            then [(DeclarationError, loc, unbalancedStackMessage (height - m_stackHeight a))]
            else []))"
proof -
  from visit_Block_Ok [OF assms] obtain sc success a3 a6 where
    sc: "scopes (m_info a) addr = Some (Some sc)" and
    ss: "visit_Statements ext ss True (a\<lparr>m_currentScope := Some sc\<rparr>) = Ok success a3" and
    fin: "(if success \<and> m_stackHeight a3 - of_nat (numberOfVariables sc) \<noteq> m_stackHeight a
      then and_then
             (declarationError loc
                (unbalancedStackMessage
                   (m_stackHeight a3 - of_nat (numberOfVariables sc) - m_stackHeight a))
                (a3\<lparr>m_stackHeight := m_stackHeight a3 - of_nat (numberOfVariables sc)\<rparr>))
             (\<lambda>u a6. Ok False a6)
      else Ok success (a3\<lparr>m_stackHeight := m_stackHeight a3 - of_nat (numberOfVariables sc)\<rparr>))
       = Ok b a6" and
    a': "a' = (recordStackHeight addr a6)\<lparr>m_currentScope := m_currentScope a\<rparr>"
    by blast
  have "m_stackHeight a6 = m_stackHeight a3 - of_nat (numberOfVariables sc) \<and>
        b = (success \<and> m_stackHeight a3 - of_nat (numberOfVariables sc) = m_stackHeight a) \<and>
        errors (m_errorReporter a6) =
          errors (m_errorReporter a3) @
          (if success \<and> m_stackHeight a3 - of_nat (numberOfVariables sc) \<noteq> m_stackHeight a
           then [(DeclarationError, loc,
                  unbalancedStackMessage
                    (m_stackHeight a3 - of_nat (numberOfVariables sc) - m_stackHeight a))]
           else [])"
    using fin
    by (auto simp: and_then_eq_Ok declarationError_def report_def error_def Let_def
        split: if_splits)
  then show ?thesis using sc ss a' by (simp add: Let_def recordStackHeight_def)
qed

text \<open>The empty block whose scope holds a variable: one item is missing.\<close>

theorem block_stack_balance_witness:
  "returned (visit_Block ext0 (Block 1 (0, 0) []) (fresh oneVariableScope 256)) = Some False \<and>
   errors (m_errorReporter (state_of (visit_Block ext0 (Block 1 (0, 0) []) (fresh oneVariableScope 256)))) =
     [(DeclarationError, (0, 0), ''Unbalanced stack at the end of a block: 1 missing item(s).'')]"
  using block_stack_balance [where ext = ext0 and addr = 1 and loc = "(0, 0)" and ss = "[]"
      and a = "fresh oneVariableScope 256" and b = False
      and a' = "state_of (visit_Block ext0 (Block 1 (0, 0) []) (fresh oneVariableScope 256))"]
  by (simp add: eval_simps)

text \<open>
  The block \<open>{ 7 }\<close>: the statement fails and leaves one value, the block ends one above
  the height at its entry, and the only diagnostic is the type error of the statement.
\<close>

theorem block_unbalanced_after_failure:
  "returned (visit_Block ext0 blockOfSeven (fresh oneEmptyScope 256)) = Some False \<and>
   m_stackHeight (fresh oneEmptyScope 256) = 0 \<and>
   m_stackHeight (state_of (visit_Block ext0 blockOfSeven (fresh oneEmptyScope 256))) = 1 \<and>
   map fst (errors (m_errorReporter (state_of
     (visit_Block ext0 blockOfSeven (fresh oneEmptyScope 256))))) = [TypeError]"
  by (simp add: eval_simps)

section \<open>The cases of a switch\<close>

lemmas switch_simps =
  switchScopes_def duplicateSwitch_def defaultSwitch_def fitsInWord_def caseValue_def

text \<open>The step of the second loop of the switch for the value of a case.\<close>

lemma visit_Cases_value:
  assumes "(case cval of
          None \<Rightarrow> Ok (seen, succ) a
        | Some l \<Rightarrow>
            (let initialStackHeight = m_stackHeight a in
             and_then (visit_Literal ext l a) (\<lambda>isCaseValueValid a1.
             let success = (succ \<and> isCaseValueValid) in
             and_then (expectDeposit 1 initialStackHeight (lit_location l) a1) (\<lambda>deposited a2.
             let a3 = a2\<lparr>m_stackHeight := m_stackHeight a2 - 1\<rparr> in
             if \<not> (isCaseValueValid \<or> hasErrors (m_errorReporter a3)) then Exc AssertionFailed a3
             else if isCaseValueValid then
               (case valueOfLiteral ext l of
                  Inl e \<Rightarrow> Exc e a3
                | Inr v \<Rightarrow>
                    if v \<in> seen then
                      and_then (declarationError cloc ''Duplicate case defined.'' a3)
                        (\<lambda>u a4. Ok (seen, False) a4)
                    else Ok (insert v seen, success) a3)
             else Ok (seen, success) a3)))) = Ok (seen1, succ1) a5"
  shows "seen \<subseteq> seen1 \<and> (succ1 \<longrightarrow> succ) \<and>
     (\<forall>l v. cval = Some l \<and> fitsInWord ext l \<and> valueOfLiteral ext l = Inr v \<longrightarrow>
        v \<in> seen1 \<and>
        (v \<in> seen \<longrightarrow>
           \<not> succ1 \<and>
           (DeclarationError, cloc, ''Duplicate case defined.'') \<in> set (errors (m_errorReporter a5))))"
proof (cases cval)
  case None
  then show ?thesis using assms by simp
next
  case (Some l)
  from assms obtain ok a1 dep a2 where
    lit: "visit_Literal ext l a = Ok ok a1" and
    dep: "expectDeposit 1 (m_stackHeight a) (lit_location l) a1 = Ok dep a2" and
    rest: "(if \<not> (ok \<or> hasErrors (m_errorReporter (a2\<lparr>m_stackHeight := m_stackHeight a2 - 1\<rparr>)))
       then Exc AssertionFailed (a2\<lparr>m_stackHeight := m_stackHeight a2 - 1\<rparr>)
       else if ok then
         (case valueOfLiteral ext l of
            Inl e \<Rightarrow> Exc e (a2\<lparr>m_stackHeight := m_stackHeight a2 - 1\<rparr>)
          | Inr v \<Rightarrow>
              if v \<in> seen then
                and_then (declarationError cloc ''Duplicate case defined.''
                            (a2\<lparr>m_stackHeight := m_stackHeight a2 - 1\<rparr>))
                  (\<lambda>u a4. Ok (seen, False) a4)
              else Ok (insert v seen, succ \<and> ok) (a2\<lparr>m_stackHeight := m_stackHeight a2 - 1\<rparr>))
       else Ok (seen, succ \<and> ok) (a2\<lparr>m_stackHeight := m_stackHeight a2 - 1\<rparr>)) = Ok (seen1, succ1) a5"
    unfolding Some by (simp add: Let_def and_then_eq_Ok split del: if_split) blast
  have ok: "ok = fitsInWord ext l" by (rule visit_Literal_result [OF lit])
  show ?thesis
  proof (cases ok)
    case False
    then show ?thesis using rest ok Some by (auto split: if_splits)
  next
    case True
    then obtain v where v: "valueOfLiteral ext l = Inr v"
      using rest by (cases "valueOfLiteral ext l") auto
    show ?thesis
    proof (cases "v \<in> seen")
      case False
      then show ?thesis using rest True v Some by auto
    next
      case in_seen: True
      then obtain u where
        "declarationError cloc ''Duplicate case defined.''
           (a2\<lparr>m_stackHeight := m_stackHeight a2 - 1\<rparr>) = Ok u a5"
        and "seen1 = seen" and "\<not> succ1"
        using rest True v by (auto simp: and_then_eq_Ok)
      then show ?thesis using declarationError_recorded in_seen v Some by auto
    qed
  qed
qed

lemma visit_Cases_duplicate:
  assumes "visit_Cases ext cs seen succ a = Ok b a'"
    and "j < length cs" and "case_value (cs ! j) = Some lj"
    and "fitsInWord ext lj" and "valueOfLiteral ext lj = Inr v"
    and "v \<in> seen \<or>
         (\<exists>i<j. \<exists>li. case_value (cs ! i) = Some li \<and> fitsInWord ext li \<and> valueOfLiteral ext li = Inr v)"
  shows "\<not> b \<and>
     (DeclarationError, case_location (cs ! j), ''Duplicate case defined.'')
       \<in> set (errors (m_errorReporter a'))"
  using assms
proof (induction cs arbitrary: seen succ a j)
  case Nil
  then show ?case by simp
next
  case (Cons c cs)
  obtain cloc cval body where c: "c = Case cloc cval body" by (cases c) auto
  from Cons.prems(1) obtain r a5 where
    val: "(case cval of
          None \<Rightarrow> Ok (seen, succ) a
        | Some l \<Rightarrow>
            (let initialStackHeight = m_stackHeight a in
             and_then (visit_Literal ext l a) (\<lambda>isCaseValueValid a1.
             let success = (succ \<and> isCaseValueValid) in
             and_then (expectDeposit 1 initialStackHeight (lit_location l) a1) (\<lambda>deposited a2.
             let a3 = a2\<lparr>m_stackHeight := m_stackHeight a2 - 1\<rparr> in
             if \<not> (isCaseValueValid \<or> hasErrors (m_errorReporter a3)) then Exc AssertionFailed a3
             else if isCaseValueValid then
               (case valueOfLiteral ext l of
                  Inl e \<Rightarrow> Exc e a3
                | Inr v \<Rightarrow>
                    if v \<in> seen then
                      and_then (declarationError cloc ''Duplicate case defined.'' a3)
                        (\<lambda>u a4. Ok (seen, False) a4)
                    else Ok (insert v seen, success) a3)
             else Ok (seen, success) a3)))) = Ok r a5" and
    tl0: "(case r of (cases, success) \<Rightarrow> \<lambda>a5.
           and_then (visit_Block ext body a5) (\<lambda>ok a6.
           visit_Cases ext cs cases (success \<and> ok) a6)) a5 = Ok b a'"
    unfolding c visit_Cases.simps by (elim and_then_OkE) blast
  obtain seen1 succ1 where r: "r = (seen1, succ1)" by (cases r) auto
  from tl0 r obtain ok1 a6 where
    body: "visit_Block ext body a5 = Ok ok1 a6" and
    tl: "visit_Cases ext cs seen1 (succ1 \<and> ok1) a6 = Ok b a'"
    by (auto simp: and_then_eq_Ok)
  note step = visit_Cases_value [OF val [unfolded r]]
  have g56: "grows a5 a6" using grows_visit_Block [of a5 ext body] body by simp
  have g6: "grows a6 a'" using grows_visit_Cases [of a6 ext cs seen1 "succ1 \<and> ok1"] tl by simp
  show ?case
  proof (cases j)
    case 0
    then have cv: "cval = Some lj" using Cons.prems(3) c by simp
    have "v \<in> seen" using Cons.prems(6) 0 by simp
    then have "\<not> succ1"
      and "(DeclarationError, cloc, ''Duplicate case defined.'') \<in> set (errors (m_errorReporter a5))"
      using step cv Cons.prems(4,5) by auto
    then have "\<not> b"
      and "(DeclarationError, cloc, ''Duplicate case defined.'') \<in> set (errors (m_errorReporter a'))"
      using visit_Cases_False [of ext cs seen1 a6 b a'] tl
        grows_errors [OF g6 grows_errors [OF g56]] by simp_all
    then show ?thesis using 0 c by simp
  next
    case (Suc j')
    have "v \<in> seen1 \<or>
         (\<exists>i<j'. \<exists>li. case_value (cs ! i) = Some li \<and> fitsInWord ext li \<and> valueOfLiteral ext li = Inr v)"
    proof -
      from Cons.prems(6) consider "v \<in> seen"
        | i li where "i < j" "case_value ((c # cs) ! i) = Some li" "fitsInWord ext li"
            "valueOfLiteral ext li = Inr v"
        by blast
      then show ?thesis
      proof cases
        case 1
        then show ?thesis using step by auto
      next
        case 2
        show ?thesis
        proof (cases i)
          case 0
          then have "cval = Some li" using 2(2) c by simp
          then show ?thesis using step 2(3,4) by auto
        next
          case (Suc i')
          then show ?thesis using 2 \<open>j = Suc j'\<close> by auto
        qed
      qed
    qed
    then show ?thesis
      using Cons.IH [OF tl, of j' ] Cons.prems(2,3,4,5) Suc by simp
  qed
qed

lemma case_value_exact:
  assumes "(case cval of
          None \<Rightarrow> Ok (seen, succ) a
        | Some l \<Rightarrow>
            (let initialStackHeight = m_stackHeight a in
             and_then (visit_Literal ext l a) (\<lambda>isCaseValueValid a1.
             let success = (succ \<and> isCaseValueValid) in
             and_then (expectDeposit 1 initialStackHeight (lit_location l) a1) (\<lambda>deposited a2.
             let a3 = a2\<lparr>m_stackHeight := m_stackHeight a2 - 1\<rparr> in
             if \<not> (isCaseValueValid \<or> hasErrors (m_errorReporter a3)) then Exc AssertionFailed a3
             else if isCaseValueValid then
               (case valueOfLiteral ext l of
                  Inl e \<Rightarrow> Exc e a3
                | Inr v \<Rightarrow>
                    if v \<in> seen then
                      and_then (declarationError cloc ''Duplicate case defined.'' a3)
                        (\<lambda>u a4. Ok (seen, False) a4)
                    else Ok (insert v seen, success) a3)
             else Ok (seen, success) a3)))) = Ok (seen1, succ1) a5"
  shows "seen1 = seen \<union> set_option (caseValue ext (Case cloc cval body)) \<and>
     succ1 = (succ \<and> (\<forall>l. cval = Some l \<longrightarrow> fitsInWord ext l) \<and>
              (\<forall>v. caseValue ext (Case cloc cval body) = Some v \<longrightarrow> v \<notin> seen))"
proof (cases cval)
  case None
  then show ?thesis using assms by (auto simp: caseValue_def)
next
  case (Some l)
  from assms obtain ok a1 dep a2 where
    lit: "visit_Literal ext l a = Ok ok a1" and
    dep: "expectDeposit 1 (m_stackHeight a) (lit_location l) a1 = Ok dep a2" and
    rest: "(if \<not> (ok \<or> hasErrors (m_errorReporter (a2\<lparr>m_stackHeight := m_stackHeight a2 - 1\<rparr>)))
       then Exc AssertionFailed (a2\<lparr>m_stackHeight := m_stackHeight a2 - 1\<rparr>)
       else if ok then
         (case valueOfLiteral ext l of
            Inl e \<Rightarrow> Exc e (a2\<lparr>m_stackHeight := m_stackHeight a2 - 1\<rparr>)
          | Inr v \<Rightarrow>
              if v \<in> seen then
                and_then (declarationError cloc ''Duplicate case defined.''
                            (a2\<lparr>m_stackHeight := m_stackHeight a2 - 1\<rparr>))
                  (\<lambda>u a4. Ok (seen, False) a4)
              else Ok (insert v seen, succ \<and> ok) (a2\<lparr>m_stackHeight := m_stackHeight a2 - 1\<rparr>))
       else Ok (seen, succ \<and> ok) (a2\<lparr>m_stackHeight := m_stackHeight a2 - 1\<rparr>)) = Ok (seen1, succ1) a5"
    unfolding Some by (simp add: Let_def and_then_eq_Ok split del: if_split) blast
  have ok: "ok = fitsInWord ext l" by (rule visit_Literal_result [OF lit])
  show ?thesis
  proof (cases ok)
    case False
    then show ?thesis using rest ok Some by (auto simp: caseValue_def split: if_splits)
  next
    case True
    then obtain v where v: "valueOfLiteral ext l = Inr v"
      using rest by (cases "valueOfLiteral ext l") auto
    show ?thesis
    proof (cases "v \<in> seen")
      case False
      then show ?thesis using rest True v Some ok by (auto simp: caseValue_def)
    next
      case in_seen: True
      then have "seen1 = seen" and "\<not> succ1"
        using rest True v by (auto simp: and_then_eq_Ok)
      then show ?thesis using in_seen v Some ok True by (auto simp: caseValue_def)
    qed
  qed
qed

lemma expectType_result: "expectType t u loc a = Ok ok a' \<Longrightarrow> ok = (t = u)"
  by (auto simp: expectType_def and_then_eq_Ok split: if_splits)

lemma visit_Switch_types_result:
  "visit_Switch_types vt cs succ a = Ok b a' \<Longrightarrow>
   b = (succ \<and> (\<forall>c\<in>set cs. \<forall>l. case_value c = Some l \<longrightarrow> lit_type l = vt))"
proof (induction cs arbitrary: succ a)
  case Nil
  then show ?case by simp
next
  case (Cons c cs)
  show ?case
  proof (cases "case_value c")
    case None
    then show ?thesis using Cons by simp
  next
    case (Some l)
    from Cons.prems Some obtain ok a1 where
      ty: "expectType vt (lit_type l) (lit_location l) a = Ok ok a1" and
      tl: "visit_Switch_types vt cs (succ \<and> ok) a1 = Ok b a'"
      by (auto simp: and_then_eq_Ok)
    have "ok = (vt = lit_type l)" by (rule expectType_result [OF ty])
    then show ?thesis using Cons.IH [OF tl] Some by auto
  qed
qed

text \<open>What the second loop of the switch returns.\<close>

lemma case_value_step:
  assumes "seen1 = seen \<union> set_option (caseValue ext c) \<and>
     succ1 = (succ \<and> (\<forall>l. case_value c = Some l \<longrightarrow> fitsInWord ext l) \<and>
              (\<forall>v. caseValue ext c = Some v \<longrightarrow> v \<notin> seen))"
  shows "(succ1 \<and> (\<forall>c\<in>set cs. \<forall>l. case_value c = Some l \<longrightarrow> fitsInWord ext l) \<and>
      distinct (List.map_filter (caseValue ext) cs) \<and>
      set (List.map_filter (caseValue ext) cs) \<inter> seen1 = {}) =
     (succ \<and> (\<forall>c\<in>set (c # cs). \<forall>l. case_value c = Some l \<longrightarrow> fitsInWord ext l) \<and>
      distinct (List.map_filter (caseValue ext) (c # cs)) \<and>
      set (List.map_filter (caseValue ext) (c # cs)) \<inter> seen = {})"
proof (cases "caseValue ext c")
  case None
  then show ?thesis using assms by (auto simp: map_filter_simps)
next
  case (Some v)
  then show ?thesis using assms by (auto simp: map_filter_simps)
qed

lemma visit_Cases_accepted:
  assumes "visit_Cases ext cs seen succ a = Ok True a'"
  shows "succ \<and> (\<forall>c\<in>set cs. \<forall>l. case_value c = Some l \<longrightarrow> fitsInWord ext l) \<and>
     distinct (List.map_filter (caseValue ext) cs) \<and>
     set (List.map_filter (caseValue ext) cs) \<inter> seen = {}"
  using assms
proof (induction cs arbitrary: seen succ a)
  case Nil
  then show ?case by (simp add: map_filter_simps)
next
  case (Cons c cs)
  obtain cloc cval body where c: "c = Case cloc cval body" by (cases c) auto
  from Cons.prems [unfolded c] obtain seen1 succ1 a5 ok1 a6 where
    val: "(case cval of
          None \<Rightarrow> Ok (seen, succ) a
        | Some l \<Rightarrow>
            (let initialStackHeight = m_stackHeight a in
             and_then (visit_Literal ext l a) (\<lambda>isCaseValueValid a1.
             let success = (succ \<and> isCaseValueValid) in
             and_then (expectDeposit 1 initialStackHeight (lit_location l) a1) (\<lambda>deposited a2.
             let a3 = a2\<lparr>m_stackHeight := m_stackHeight a2 - 1\<rparr> in
             if \<not> (isCaseValueValid \<or> hasErrors (m_errorReporter a3)) then Exc AssertionFailed a3
             else if isCaseValueValid then
               (case valueOfLiteral ext l of
                  Inl e \<Rightarrow> Exc e a3
                | Inr v \<Rightarrow>
                    if v \<in> seen then
                      and_then (declarationError cloc ''Duplicate case defined.'' a3)
                        (\<lambda>u a4. Ok (seen, False) a4)
                    else Ok (insert v seen, success) a3)
             else Ok (seen, success) a3)))) = Ok (seen1, succ1) a5" and
    tl: "visit_Cases ext cs seen1 (succ1 \<and> ok1) a6 = Ok True a'"
    by (rule visit_Cases_ConsE)
  have ex: "seen1 = seen \<union> set_option (caseValue ext c) \<and>
     succ1 = (succ \<and> (\<forall>l. case_value c = Some l \<longrightarrow> fitsInWord ext l) \<and>
              (\<forall>v. caseValue ext c = Some v \<longrightarrow> v \<notin> seen))"
    using case_value_exact [OF val, of body] c by simp
  have "succ1 \<and> (\<forall>c\<in>set cs. \<forall>l. case_value c = Some l \<longrightarrow> fitsInWord ext l) \<and>
      distinct (List.map_filter (caseValue ext) cs) \<and>
      set (List.map_filter (caseValue ext) cs) \<inter> seen1 = {}"
    using Cons.IH [OF tl] by simp
  then show ?case unfolding case_value_step [OF ex] .
qed

lemma visit_Cases_accepts:
  assumes "visit_Cases ext cs seen succ a = Ok b a'"
    and "sameSetting a0 a" and "grows a0 a"
    and bodies: "\<And>c x ok x'. c \<in> set cs \<Longrightarrow> sameSetting a0 x \<Longrightarrow> grows a0 x \<Longrightarrow>
          visit_Block ext (case_body c) x = Ok ok x' \<Longrightarrow> ok"
    and "succ \<and> (\<forall>c\<in>set cs. \<forall>l. case_value c = Some l \<longrightarrow> fitsInWord ext l) \<and>
     distinct (List.map_filter (caseValue ext) cs) \<and>
     set (List.map_filter (caseValue ext) cs) \<inter> seen = {}"
  shows "b"
  using assms
proof (induction cs arbitrary: seen succ a)
  case Nil
  then show ?case by simp
next
  case (Cons c cs)
  obtain cloc cval body where c: "c = Case cloc cval body" by (cases c) auto
  from Cons.prems(1) [unfolded c] obtain seen1 succ1 a5 ok1 a6 where
    val: "(case cval of
          None \<Rightarrow> Ok (seen, succ) a
        | Some l \<Rightarrow>
            (let initialStackHeight = m_stackHeight a in
             and_then (visit_Literal ext l a) (\<lambda>isCaseValueValid a1.
             let success = (succ \<and> isCaseValueValid) in
             and_then (expectDeposit 1 initialStackHeight (lit_location l) a1) (\<lambda>deposited a2.
             let a3 = a2\<lparr>m_stackHeight := m_stackHeight a2 - 1\<rparr> in
             if \<not> (isCaseValueValid \<or> hasErrors (m_errorReporter a3)) then Exc AssertionFailed a3
             else if isCaseValueValid then
               (case valueOfLiteral ext l of
                  Inl e \<Rightarrow> Exc e a3
                | Inr v \<Rightarrow>
                    if v \<in> seen then
                      and_then (declarationError cloc ''Duplicate case defined.'' a3)
                        (\<lambda>u a4. Ok (seen, False) a4)
                    else Ok (insert v seen, success) a3)
             else Ok (seen, success) a3)))) = Ok (seen1, succ1) a5" and
    s5: "sameSetting a a5" and g5: "grows a a5" and
    body: "visit_Block ext body a5 = Ok ok1 a6" and
    tl: "visit_Cases ext cs seen1 (succ1 \<and> ok1) a6 = Ok b a'"
    by (rule visit_Cases_ConsE)
  have ex: "seen1 = seen \<union> set_option (caseValue ext c) \<and>
     succ1 = (succ \<and> (\<forall>l. case_value c = Some l \<longrightarrow> fitsInWord ext l) \<and>
              (\<forall>v. caseValue ext c = Some v \<longrightarrow> v \<notin> seen))"
    using case_value_exact [OF val, of body] c by simp
  have s05: "sameSetting a0 a5" using Cons.prems(2) s5 by (rule sameSetting_trans)
  have g05: "grows a0 a5" using Cons.prems(3) g5 by (rule grows_trans)
  have ok1: "ok1"
  proof (rule Cons.prems(4) [of c a5 ok1 a6])
    show "c \<in> set (c # cs)" by simp
    show "sameSetting a0 a5" by (rule s05)
    show "grows a0 a5" by (rule g05)
    show "visit_Block ext (case_body c) a5 = Ok ok1 a6" using body c by simp
  qed
  have s06: "sameSetting a0 a6"
    using s05 sameSetting_visit_Block [of a5 ext body] body by (auto intro: sameSetting_trans)
  have g06: "grows a0 a6"
    using g05 grows_visit_Block [of a5 ext body] body by (auto intro: grows_trans)
  have rest: "succ1 \<and> (\<forall>c\<in>set cs. \<forall>l. case_value c = Some l \<longrightarrow> fitsInWord ext l) \<and>
      distinct (List.map_filter (caseValue ext) cs) \<and>
      set (List.map_filter (caseValue ext) cs) \<inter> seen1 = {}"
    unfolding case_value_step [OF ex] by (rule Cons.prems(5))
  show ?case
  proof (rule Cons.IH [OF tl s06 g06])
    fix c' x ok x'
    assume "c' \<in> set cs" "sameSetting a0 x" "grows a0 x" "visit_Block ext (case_body c') x = Ok ok x'"
    then show ok using Cons.prems(4) [of c' x ok x'] by simp
  next
    show "(succ1 \<and> ok1) \<and> (\<forall>c\<in>set cs. \<forall>l. case_value c = Some l \<longrightarrow> fitsInWord ext l) \<and>
      distinct (List.map_filter (caseValue ext) cs) \<and>
      set (List.map_filter (caseValue ext) cs) \<inter> seen1 = {}"
      using rest ok1 by simp
  qed
qed

lemma empty_block_accepted:
  assumes "scopes (m_info x) n = Some (Some (Scope n [] super fs))"
    and "visit_Block ext (Block n loc []) x = Ok ok x'"
  shows "ok"
  using visit_Block_Ok [OF assms(2)] assms(1)
  by (auto simp: numberOfVariables_def)

text \<open>
  C6. After a switch that returns, the stack height is the one from before the switch,
  whatever its cases are. A case literal that the handler of a literal accepts has its
  numeric value put into the set of the values seen, and the set holds nothing else:
  when two case literals of a switch are accepted and have the same numeric value, the
  switch handler returns false, and the declaration error "Duplicate case defined." at
  the location of the later case is among the diagnostics; a switch that is accepted
  has an accepted expression, case literals of the type of the expression that are all
  accepted, and pairwise distinct values; and a switch that has all this is accepted
  when each of its bodies is a block that, in this setting, returns true wherever it
  returns.
\<close>

theorem switch_duplicate_case:
  assumes "visit_Statement ext (Switch addr loc e cs) a = Ok b a'"
  shows "m_stackHeight a' = m_stackHeight a \<and>
     (\<forall>i j li lj v.
        i < j \<and> j < length cs \<and>
        case_value (cs ! i) = Some li \<and> case_value (cs ! j) = Some lj \<and>
        fitsInWord ext li \<and> fitsInWord ext lj \<and>
        valueOfLiteral ext li = Inr v \<and> valueOfLiteral ext lj = Inr v \<longrightarrow>
        \<not> b \<and>
        (DeclarationError, case_location (cs ! j), ''Duplicate case defined.'')
          \<in> set (errors (m_errorReporter a'))) \<and>
     (\<exists>ex ok1 a1.
        e = Some ex \<and> expectExpression ext ex a = Ok ok1 a1 \<and>
        (b \<longrightarrow>
           ok1 \<and>
           (\<forall>c\<in>set cs. \<forall>l. case_value c = Some l \<longrightarrow>
              lit_type l = hd (m_typeOfCurrentExpression a1) \<and> fitsInWord ext l) \<and>
           distinct (List.map_filter (caseValue ext) cs)) \<and>
        ((\<forall>c\<in>set cs. \<forall>x ok x'.
            sameSetting a x \<and> grows a x \<and> visit_Block ext (case_body c) x = Ok ok x' \<longrightarrow> ok) \<and>
         ok1 \<and>
         (\<forall>c\<in>set cs. \<forall>l. case_value c = Some l \<longrightarrow>
            lit_type l = hd (m_typeOfCurrentExpression a1) \<and> fitsInWord ext l) \<and>
         distinct (List.map_filter (caseValue ext) cs) \<longrightarrow>
         b))"
proof -
  from assms obtain ex where ex: "e = Some ex" by (cases e) auto
  from assms [unfolded ex] obtain ok1 a1 vt succ0 a3 a4 where
    e1: "expectExpression ext ex a = Ok ok1 a1" and
    vt: "ok1 \<longrightarrow> vt = hd (m_typeOfCurrentExpression a1)" and
    ty: "visit_Switch_types vt cs ok1 a1 = Ok succ0 a3" and
    run: "visit_Cases ext cs {} succ0 a3 = Ok b a4" and
    a': "a' = recordStackHeight addr (a4\<lparr>m_stackHeight := m_stackHeight a\<rparr>)"
    by (auto simp: and_then_eq_Ok Let_def split: if_splits list.splits)
  have succ0: "succ0 = (ok1 \<and> (\<forall>c\<in>set cs. \<forall>l. case_value c = Some l \<longrightarrow> lit_type l = vt))"
    by (rule visit_Switch_types_result [OF ty])
  have height: "m_stackHeight a' = m_stackHeight a"
    using a' by (simp add: recordStackHeight_def)
  have errs: "errors (m_errorReporter a') = errors (m_errorReporter a4)"
    using a' by (simp add: recordStackHeight_def)
  have dup: "\<forall>i j li lj v.
        i < j \<and> j < length cs \<and>
        case_value (cs ! i) = Some li \<and> case_value (cs ! j) = Some lj \<and>
        fitsInWord ext li \<and> fitsInWord ext lj \<and>
        valueOfLiteral ext li = Inr v \<and> valueOfLiteral ext lj = Inr v \<longrightarrow>
        \<not> b \<and>
        (DeclarationError, case_location (cs ! j), ''Duplicate case defined.'')
          \<in> set (errors (m_errorReporter a'))"
  proof (intro allI impI)
    fix i j li lj v
    assume h: "i < j \<and> j < length cs \<and>
        case_value (cs ! i) = Some li \<and> case_value (cs ! j) = Some lj \<and>
        fitsInWord ext li \<and> fitsInWord ext lj \<and>
        valueOfLiteral ext li = Inr v \<and> valueOfLiteral ext lj = Inr v"
    then have "v \<in> {} \<or>
         (\<exists>i<j. \<exists>li. case_value (cs ! i) = Some li \<and> fitsInWord ext li \<and> valueOfLiteral ext li = Inr v)"
      by blast
    then have "\<not> b \<and>
       (DeclarationError, case_location (cs ! j), ''Duplicate case defined.'')
         \<in> set (errors (m_errorReporter a4))"
      using visit_Cases_duplicate [OF run, of j lj v] h by blast
    then show "\<not> b \<and>
        (DeclarationError, case_location (cs ! j), ''Duplicate case defined.'')
          \<in> set (errors (m_errorReporter a'))"
      using errs by simp
  qed
  have fwd: "b \<longrightarrow>
           ok1 \<and>
           (\<forall>c\<in>set cs. \<forall>l. case_value c = Some l \<longrightarrow>
              lit_type l = hd (m_typeOfCurrentExpression a1) \<and> fitsInWord ext l) \<and>
           distinct (List.map_filter (caseValue ext) cs)"
  proof
    assume b
    then have "visit_Cases ext cs {} succ0 a3 = Ok True a4" using run by simp
    from visit_Cases_accepted [OF this]
    have "succ0" and fit: "\<forall>c\<in>set cs. \<forall>l. case_value c = Some l \<longrightarrow> fitsInWord ext l"
      and d: "distinct (List.map_filter (caseValue ext) cs)"
      by simp_all
    then have "ok1" and "\<forall>c\<in>set cs. \<forall>l. case_value c = Some l \<longrightarrow> lit_type l = vt"
      using succ0 by simp_all
    then show "ok1 \<and>
           (\<forall>c\<in>set cs. \<forall>l. case_value c = Some l \<longrightarrow>
              lit_type l = hd (m_typeOfCurrentExpression a1) \<and> fitsInWord ext l) \<and>
           distinct (List.map_filter (caseValue ext) cs)"
      using vt fit d by simp
  qed
  have bwd: "(\<forall>c\<in>set cs. \<forall>x ok x'.
            sameSetting a x \<and> grows a x \<and> visit_Block ext (case_body c) x = Ok ok x' \<longrightarrow> ok) \<and>
         ok1 \<and>
         (\<forall>c\<in>set cs. \<forall>l. case_value c = Some l \<longrightarrow>
            lit_type l = hd (m_typeOfCurrentExpression a1) \<and> fitsInWord ext l) \<and>
         distinct (List.map_filter (caseValue ext) cs) \<longrightarrow>
         b"
  proof
    assume h: "(\<forall>c\<in>set cs. \<forall>x ok x'.
            sameSetting a x \<and> grows a x \<and> visit_Block ext (case_body c) x = Ok ok x' \<longrightarrow> ok) \<and>
         ok1 \<and>
         (\<forall>c\<in>set cs. \<forall>l. case_value c = Some l \<longrightarrow>
            lit_type l = hd (m_typeOfCurrentExpression a1) \<and> fitsInWord ext l) \<and>
         distinct (List.map_filter (caseValue ext) cs)"
    have s3: "sameSetting a a3"
      using sameSetting_expectExpression [of a ext ex] sameSetting_visit_Switch_types [of a1 vt cs ok1]
        e1 ty by (auto intro: sameSetting_trans)
    have g3: "grows a a3"
      using grows_expectExpression [of a ext ex] grows_visit_Switch_types [of a1 vt cs ok1]
        e1 ty by (auto intro: grows_trans)
    have "succ0" using succ0 h vt by simp
    then have pre: "succ0 \<and> (\<forall>c\<in>set cs. \<forall>l. case_value c = Some l \<longrightarrow> fitsInWord ext l) \<and>
       distinct (List.map_filter (caseValue ext) cs) \<and>
       set (List.map_filter (caseValue ext) cs) \<inter> {} = {}"
      using h by simp
    show b
    proof (rule visit_Cases_accepts [OF run s3 g3 _ pre])
      fix c x ok x'
      assume "c \<in> set cs" "sameSetting a x" "grows a x" "visit_Block ext (case_body c) x = Ok ok x'"
      then show ok using h by blast
    qed
  qed
  show ?thesis using height dup ex e1 fwd bwd by blast
qed

text \<open>
  The cases \<open>1\<close> and \<open>01\<close> have the same value, and the switch with these two cases
  is rejected; the switch with the case \<open>1\<close> and a default case, both with an empty body,
  is accepted.
\<close>

theorem switch_duplicate_case_witness:
  "fitsInWord ext0 (Literal 4 (4, 4) Number ''1'' ''u256'') \<and>
   fitsInWord ext0 (Literal 5 (5, 5) Number ''01'' ''u256'') \<and>
   valueOfLiteral ext0 (Literal 4 (4, 4) Number ''1'' ''u256'') = Inr 1 \<and>
   valueOfLiteral ext0 (Literal 5 (5, 5) Number ''01'' ''u256'') = Inr 1 \<and>
   returned (visit_Statement ext0 duplicateSwitch (inOuterScope switchScopes)) = Some False \<and>
   errors (m_errorReporter (state_of (visit_Statement ext0 duplicateSwitch (inOuterScope switchScopes)))) =
     [(DeclarationError, (2, 2), ''Duplicate case defined.'')] \<and>
   (DeclarationError, (2, 2), ''Duplicate case defined.'')
     \<in> set (errors (m_errorReporter (state_of (visit_Statement ext0 duplicateSwitch (inOuterScope switchScopes))))) \<and>
   m_stackHeight (state_of (visit_Statement ext0 duplicateSwitch (inOuterScope switchScopes))) =
     m_stackHeight (inOuterScope switchScopes) \<and>
   returned (visit_Statement ext0 defaultSwitch (inOuterScope switchScopes)) = Some True \<and>
   errors (m_errorReporter (state_of (visit_Statement ext0 defaultSwitch (inOuterScope switchScopes)))) = [] \<and>
   m_stackHeight (state_of (visit_Statement ext0 defaultSwitch (inOuterScope switchScopes))) =
     m_stackHeight (inOuterScope switchScopes)"
proof -
  let ?a = "inOuterScope switchScopes"
  let ?one = "Literal 4 (4, 4) Number ''1'' ''u256''"
  let ?cs = "[Case (1, 1) (Some ?one) (Block 10 (0, 0) []), Case (2, 2) None (Block 11 (0, 0) [])]"
  have dup: "visit_Statement ext0
       (Switch 2 (0, 0) (Some seven)
         [Case (1, 1) (Some ?one) (Block 10 (0, 0) []),
          Case (2, 2) (Some (Literal 5 (5, 5) Number ''01'' ''u256'')) (Block 11 (0, 0) [])]) ?a =
     Ok False (state_of (visit_Statement ext0 duplicateSwitch ?a))"
    by (simp add: eval_simps switch_simps)
  have e: "expectExpression ext0 seven ?a =
     Ok True (state_of (expectExpression ext0 seven ?a))"
    by (simp add: eval_simps switch_simps)
  have bodies: "\<forall>c\<in>set ?cs. \<forall>x ok x'.
      sameSetting ?a x \<and> grows ?a x \<and> visit_Block ext0 (case_body c) x = Ok ok x' \<longrightarrow> ok"
  proof (intro ballI allI impI)
    fix c x ok x'
    assume c: "c \<in> set ?cs"
      and h: "sameSetting ?a x \<and> grows ?a x \<and> visit_Block ext0 (case_body c) x = Ok ok x'"
    then have sc: "scopes (m_info x) = switchScopes"
      by (simp add: sameSetting_def inOuterScope_def fresh_def)
    from c consider "case_body c = Block 10 (0, 0) []" | "case_body c = Block 11 (0, 0) []"
      by auto
    then show ok
    proof cases
      case 1
      have "scopes (m_info x) 10 = Some (Some (Scope 10 [] (Some outerScope) False))"
        using sc by (simp add: switchScopes_def)
      moreover have "visit_Block ext0 (Block 10 (0, 0) []) x = Ok ok x'" using h 1 by simp
      ultimately show ?thesis by (rule empty_block_accepted)
    next
      case 2
      have "scopes (m_info x) 11 = Some (Some (Scope 11 [] (Some outerScope) False))"
        using sc by (simp add: switchScopes_def)
      moreover have "visit_Block ext0 (Block 11 (0, 0) []) x = Ok ok x'" using h 2 by simp
      ultimately show ?thesis by (rule empty_block_accepted)
    qed
  qed
  have vals: "ok1 \<longrightarrow> (\<forall>c\<in>set ?cs. \<forall>l. case_value c = Some l \<longrightarrow>
      lit_type l = hd (m_typeOfCurrentExpression (state_of (expectExpression ext0 seven ?a))) \<and>
      fitsInWord ext0 l) \<and>
      distinct (List.map_filter (caseValue ext0) ?cs)" for ok1 :: bool
    by (simp add: eval_simps switch_simps map_filter_simps)
  define b where "b = (returned (visit_Statement ext0 defaultSwitch ?a) = Some True)"
  have run: "visit_Statement ext0 (Switch 2 (0, 0) (Some seven) ?cs) ?a =
      Ok b (state_of (visit_Statement ext0 defaultSwitch ?a))"
    unfolding b_def by (simp add: eval_simps switch_simps)
  note T2 = switch_duplicate_case [OF run, THEN conjunct2, THEN conjunct2]
  from T2 have "b"
  proof (elim exE conjE)
    fix ex ok1 a1
    assume ex: "Some seven = Some ex" and e1: "expectExpression ext0 ex ?a = Ok ok1 a1"
      and bwd: "(\<forall>c\<in>set ?cs. \<forall>x ok x'.
            sameSetting ?a x \<and> grows ?a x \<and> visit_Block ext0 (case_body c) x = Ok ok x' \<longrightarrow> ok) \<and>
         ok1 \<and>
         (\<forall>c\<in>set ?cs. \<forall>l. case_value c = Some l \<longrightarrow>
            lit_type l = hd (m_typeOfCurrentExpression a1) \<and> fitsInWord ext0 l) \<and>
         distinct (List.map_filter (caseValue ext0) ?cs) \<longrightarrow>
         b"
    have "ex = seven" using ex by simp
    then have ok1: "ok1" and a1: "a1 = state_of (expectExpression ext0 seven ?a)"
      using e1 e by simp_all
    note xd = vals [of ok1, THEN mp, OF ok1, folded a1]
    show "b"
      by (rule bwd [THEN mp]) (intro conjI bodies ok1 xd [THEN conjunct1] xd [THEN conjunct2])
  qed
  then have accepted: "returned (visit_Statement ext0 defaultSwitch ?a) = Some True"
    by (simp add: b_def)
  note T1 = switch_duplicate_case [OF dup]
  have height: "m_stackHeight (state_of (visit_Statement ext0 duplicateSwitch ?a)) = m_stackHeight ?a"
    using T1 by (rule conjunct1)
  have recorded: "(DeclarationError, (2, 2), ''Duplicate case defined.'')
      \<in> set (errors (m_errorReporter (state_of (visit_Statement ext0 duplicateSwitch ?a))))"
    using T1 [THEN conjunct2, THEN conjunct1, rule_format, of 0 1 ?one
        "Literal 5 (5, 5) Number ''01'' ''u256''" 1]
    by (simp add: fitsInWord_def ext0_def decimal_def)
  have rest: "fitsInWord ext0 (Literal 4 (4, 4) Number ''1'' ''u256'') \<and>
   fitsInWord ext0 (Literal 5 (5, 5) Number ''01'' ''u256'') \<and>
   valueOfLiteral ext0 (Literal 4 (4, 4) Number ''1'' ''u256'') = Inr 1 \<and>
   valueOfLiteral ext0 (Literal 5 (5, 5) Number ''01'' ''u256'') = Inr 1 \<and>
   returned (visit_Statement ext0 duplicateSwitch (inOuterScope switchScopes)) = Some False \<and>
   errors (m_errorReporter (state_of (visit_Statement ext0 duplicateSwitch (inOuterScope switchScopes)))) =
     [(DeclarationError, (2, 2), ''Duplicate case defined.'')] \<and>
   errors (m_errorReporter (state_of (visit_Statement ext0 defaultSwitch (inOuterScope switchScopes)))) = [] \<and>
   m_stackHeight (state_of (visit_Statement ext0 defaultSwitch (inOuterScope switchScopes))) =
     m_stackHeight (inOuterScope switchScopes)"
    by (simp add: eval_simps switch_simps)
  show ?thesis using accepted height recorded rest by blast
qed

section \<open>The scope of a for loop\<close>



section \<open>Jump instructions as callees\<close>

lemma warnOnInstructions_jump:
  assumes "instr = JUMP \<or> instr = JUMPI \<or> instr = JUMPDEST"
    and "supportsReturndata (m_evmVersion a) = hasStaticCall (m_evmVersion a)"
    and "hasBitwiseShifting (m_evmVersion a) = hasCreate2 (m_evmVersion a)"
    and "length (errors (m_errorReporter a)) < maxErrors (m_errorReporter a)"
  shows "warnOnInstructions ext instr loc a = Ok True (withError (SyntaxError, loc, jumpInstructionsMessage) a)"
  using assms unfolding warnOnInstructions_def Let_def
  by (auto simp: report_Ok)

text \<open>
  C8. A call whose callee is neither a built-in function of the dialect nor in any scope,
  and which the strict assembly dialect of the default machine version knows as the
  instruction \<open>JUMP\<close>, \<open>JUMPI\<close> or \<open>JUMPDEST\<close>: whatever the features of the target
  machine version are (given that they pass the two assertions on them and the reporter
  has room), the check of the legacy instructions records the syntax error about
  low-level EVM features and returns true, and the call goes on to its arguments from
  the state that has this one diagnostic more, so "Function not found." is not recorded;
  after the arguments nothing more is recorded.
\<close>

theorem jump_instruction_rejected:
  assumes "id_name fn \<noteq> []"
    and "builtin (m_dialect a) (id_name fn) = None"
    and "m_currentScope a = Some cs"
    and "lookup cs (id_name fn) = None"
    and "strictAssemblyBuiltin ext (id_name fn) = Some (Some instr)"
    and "instr = JUMP \<or> instr = JUMPI \<or> instr = JUMPDEST"
    and "supportsReturndata (m_evmVersion a) = hasStaticCall (m_evmVersion a)"
    and "hasBitwiseShifting (m_evmVersion a) = hasCreate2 (m_evmVersion a)"
    and "length (errors (m_errorReporter a)) < maxErrors (m_errorReporter a)"
  shows "warnOnInstructions_name ext (id_name fn) (id_location fn) a =
           Ok True (withError (SyntaxError, id_location fn, jumpInstructionsMessage) a) \<and>
         visit_Expression ext (FunctionCall addr loc fn args) a =
           and_then
             (visit_Arguments ext False (id_location fn) args False []
                (withError (SyntaxError, id_location fn, jumpInstructionsMessage) a))
             (\<lambda>r a3. Exc NullDereference
                (recordStackHeight addr
                   (a3\<lparr>m_stackHeight := m_stackHeight a3 + (0 - of_nat (length args))\<rparr>)))"
proof -
  let ?a1 = "withError (SyntaxError, id_location fn, jumpInstructionsMessage) a"
  have warn: "warnOnInstructions_name ext (id_name fn) (id_location fn) a = Ok True ?a1"
    using assms(5) warnOnInstructions_jump [OF assms(6-9)]
    by (simp add: warnOnInstructions_name_def)
  have call: "visit_Expression ext (FunctionCall addr loc fn args) a =
      and_then (visit_Arguments ext False (id_location fn) args False [] ?a1)
        (\<lambda>r a3. Exc NullDereference
           (recordStackHeight addr
              (a3\<lparr>m_stackHeight := m_stackHeight a3 + (0 - of_nat (length args))\<rparr>)))"
  proof (cases "visit_Arguments ext False (id_location fn) args False [] ?a1")
    case (Exc e s)
    then show ?thesis using assms(1-4) warn by (simp add: Let_def)
  next
    case (Ok r s)
    obtain b ats where r: "r = (b, ats)" by (cases r) auto
    have "\<not> b" using Ok visit_Arguments_False unfolding r by blast
    then show ?thesis using assms(1-4) warn Ok r by (simp add: Let_def)
  qed
  show ?thesis using warn call by blast
qed

text \<open>The call \<open>jump(7)\<close>.\<close>

theorem jump_instruction_rejected_witness:
  "id_name (Identifier 6 (1, 1) ''jump'') \<noteq> [] \<and>
   builtin (m_dialect emptyScopeState) (id_name (Identifier 6 (1, 1) ''jump'')) = None \<and>
   m_currentScope emptyScopeState = Some (Scope 1 [] None False) \<and>
   lookup (Scope 1 [] None False) (id_name (Identifier 6 (1, 1) ''jump'')) = None \<and>
   strictAssemblyBuiltin ext0 (id_name (Identifier 6 (1, 1) ''jump'')) = Some (Some JUMP) \<and>
   warnOnInstructions_name ext0 ''jump'' (1, 1) emptyScopeState =
     Ok True (withError (SyntaxError, (1, 1), jumpInstructionsMessage) emptyScopeState) \<and>
   errors (m_errorReporter (state_of (visit_Expression ext0 jumpCall emptyScopeState))) =
     [(SyntaxError, (1, 1), jumpInstructionsMessage)]"
  using jump_instruction_rejected [of "Identifier 6 (1, 1) ''jump''" emptyScopeState
      "Scope 1 [] None False" ext0 JUMP 5 "(0, 0)" "[seven]"]
  by (simp add: jumpCall_def seven_def emptyScopeState_def withError_def eval_simps
      del: visit_Expression.simps(3))

section \<open>Expression statements\<close>

text \<open>
  C9, as the code has it. The handler saves the stack height and walks the inner
  expression. When the inner expression succeeded and the height afterwards differs from
  the saved height, the type error that recommends \<open>pop()\<close> or an assignment is reported
  and the handler returns false. In every other case nothing is reported: the handler
  returns what the inner expression returned, so after a failed inner expression it
  returns false whatever the height is. The stack height of the statement is recorded
  in both cases.
\<close>

theorem expression_statement_check:
  assumes "visit_Expression ext e a = Ok ok a1"
  shows "visit_ExpressionStatement ext addr loc e a =
     (if ok \<and> m_stackHeight a1 \<noteq> m_stackHeight a then
        and_then
          (report TypeError loc
             (''Top-level expressions are not supposed to return values (this expression returns '' @
              to_string (sint (m_stackHeight a1 - m_stackHeight a)) @ '' value'' @
              (if m_stackHeight a1 - m_stackHeight a = 1 then [] else ''s'') @
              ''). Use ``pop()`` or assign them.'') a1)
          (\<lambda>u a2. Ok False (recordStackHeight addr a2))
      else Ok ok (recordStackHeight addr a1))"
  using assms by (simp add: visit_ExpressionStatement_def Let_def and_then_assoc)

text \<open>The statement \<open>7\<close>: the literal succeeds and leaves one value, which is the type error.\<close>

theorem expression_statement_check_witness:
  "visit_Expression ext0 seven emptyScopeState =
     Ok True ((recordStackHeight 3 (emptyScopeState\<lparr>m_stackHeight := 1\<rparr>))
                \<lparr>m_typeOfCurrentExpression := [''u256'']\<rparr>) \<and>
   returned (visit_ExpressionStatement ext0 2 (0, 0) seven emptyScopeState) = Some False \<and>
   map fst (errors (m_errorReporter (state_of
     (visit_ExpressionStatement ext0 2 (0, 0) seven emptyScopeState)))) = [TypeError]"
  using expression_statement_check [of ext0 seven emptyScopeState True
      "(recordStackHeight 3 (emptyScopeState\<lparr>m_stackHeight := 1\<rparr>))\<lparr>m_typeOfCurrentExpression := [''u256'']\<rparr>"
      2 "(0, 0)"]
  by (simp add: seven_def emptyScopeState_def eval_simps)

text \<open>
  The statement \<open>y\<close> with no \<open>y\<close> in scope: the identifier fails and still leaves one
  value on the stack, and the only diagnostic is the one of the identifier.
\<close>

theorem expression_statement_failed_inner:
  "returned (unknownIdentifierStatement emptyScopeState) = Some False \<and>
   m_stackHeight (state_of (unknownIdentifierStatement emptyScopeState)) =
     m_stackHeight emptyScopeState + 1 \<and>
   errors (m_errorReporter (state_of (unknownIdentifierStatement emptyScopeState))) =
     [(DeclarationError, (1, 1), ''Identifier not found.'')]"
  by (simp add: unknownIdentifierStatement_def emptyScopeState_def eval_simps)

section \<open>The return types of a call whose callee does not resolve\<close>

text \<open>
  C10. The claim is that the failure branch of the function call never reads a missing
  return-type vector. In the code the pointer \<open>returnTypes\<close> stays null when the callee
  is neither a built-in function nor a function of a scope, \<open>success\<close> is false, and
  the failure branch reads \<open>returnTypes->size()\<close>: such a call never returns. The
  handler ends in an exception, which is the read through the null pointer when nothing
  else threw before.
\<close>

theorem function_call_unresolved_callee:
  assumes "builtin (m_dialect a) (id_name fn) = None"
    and "m_currentScope a = Some cs"
    and "lookup cs (id_name fn) = None \<or> lookup cs (id_name fn) = Some (owner, Variable t)"
  shows "returned (visit_Expression ext (FunctionCall addr loc fn args) a) = None"
proof (cases "visit_Expression ext (FunctionCall addr loc fn args) a")
  case (Exc e s)
  then show ?thesis by simp
next
  case (Ok b s)
  then have False using assms
    by (auto simp: and_then_eq_Ok Let_def split: if_splits option.splits
        dest: visit_Arguments_False)
  then show ?thesis ..
qed

text \<open>The call \<open>foo()\<close>: "Function not found." is reported, then the null pointer is read.\<close>

theorem function_call_unresolved_callee_witness:
  "builtin (m_dialect emptyScopeState) (id_name (Identifier 6 (1, 1) ''foo'')) = None \<and>
   m_currentScope emptyScopeState = Some (Scope 1 [] None False) \<and>
   lookup (Scope 1 [] None False) (id_name (Identifier 6 (1, 1) ''foo'')) = None \<and>
   returned (visit_Expression ext0 (FunctionCall 5 (0, 0) (Identifier 6 (1, 1) ''foo'') [])
     emptyScopeState) = None \<and>
   thrown (visit_Expression ext0 unknownCall emptyScopeState) = Some NullDereference \<and>
   errors (m_errorReporter (state_of (visit_Expression ext0 unknownCall emptyScopeState))) =
     [(DeclarationError, (1, 1), ''Function not found.'')]"
  using function_call_unresolved_callee [where a = emptyScopeState
      and fn = "Identifier 6 (1, 1) ''foo''" and cs = "Scope 1 [] None False" and ext = ext0
      and addr = 5 and loc = "(0, 0)" and args = "[]"]
  by (simp add: unknownCall_def emptyScopeState_def eval_simps)

end
